theory Spec2Isabelle
  imports Main "HOL-Library.Word" "HOL-Library.Signed_Division"
begin

unbundle bit_operations_syntax

section \<open>The scanning engine of grep.c\<close>

text \<open>
  A shallow embedding of \<^verbatim>\<open>src/src/grep.c\<close>: the buffer manager (\<^verbatim>\<open>reset\<close>,
  \<^verbatim>\<open>fillbuf\<close>), the output formatter (\<^verbatim>\<open>nlscan\<close>, \<^verbatim>\<open>prline\<close>, \<^verbatim>\<open>prpending\<close>,
  \<^verbatim>\<open>prtext\<close>), the match driver (\<^verbatim>\<open>grepbuf\<close>), the file driver (\<^verbatim>\<open>grep\<close>,
  \<^verbatim>\<open>grepfile\<close>), the directory walker (\<^verbatim>\<open>grepdir\<close>) and the tail of \<^verbatim>\<open>main\<close>
  after option parsing.

  Conventions.
  \<^item> The build modelled is the one without \<^verbatim>\<open>HAVE_MMAP\<close>, \<^verbatim>\<open>HAVE_DOS_FILE_CONTENTS\<close>
    and \<^verbatim>\<open>SET_BINARY\<close> (\<^verbatim>\<open>bufmapped\<close> is the constant 0), on an LP64 host:
    \<^verbatim>\<open>size_t\<close> is a 64-bit word; \<^verbatim>\<open>off_t\<close> counters are integers.
  \<^item> A byte is a \<^typ>\<open>char\<close>. The field \<open>buf\<close> holds the bytes from \<^verbatim>\<open>bufbeg\<close> up to
    \<^verbatim>\<open>buflim\<close>; a pointer into the buffer is its offset from \<^verbatim>\<open>bufbeg\<close>, so
    \<^verbatim>\<open>bufbeg\<close> is 0 and \<^verbatim>\<open>buflim\<close> is \<open>length buf\<close>. A pointer that may be
    \<^verbatim>\<open>NULL\<close> is an \<open>option\<close>.
  \<^item> Every function takes the process state and returns an \<open>outcome\<close>: it returns
    normally with a value and the new state, or the process has called \<^verbatim>\<open>exit\<close>, or
    the behaviour is undefined in C (arithmetic on the null pointer that \<^verbatim>\<open>memchr\<close>
    returned, an access outside the buffer contents).
  \<^item> The operating system and the C library are an environment \<open>env\<close> that answers
    the system calls; the matcher (\<^verbatim>\<open>execute\<close>) is a parameter of the configuration.
\<close>

subsection \<open>Options, environment and process state\<close>

datatype dirpolicy = READ_DIRECTORIES | RECURSE_DIRECTORIES | SKIP_DIRECTORIES

datatype binpolicy = BINARY_BINARY_FILES | TEXT_BINARY_FILES | WITHOUT_MATCH_BINARY_FILES

type_synonym size_t = "64 word"

text \<open>The option variables, as \<^verbatim>\<open>main\<close> leaves them once the options are parsed.
  \<open>out_quiet_opt\<close> and \<open>done_on_match_opt\<close> are the values the options give to
  \<^verbatim>\<open>out_quiet\<close> and \<^verbatim>\<open>done_on_match\<close>, which \<^verbatim>\<open>grep\<close> changes while it scans.
  \<open>execute\<close> is the installed matcher: on the bytes \<^verbatim>\<open>[p, p + size)\<close> it returns
  \<open>Some (offset, match_size)\<close>, or \<open>None\<close> for \<^verbatim>\<open>(size_t) -1\<close>.\<close>

record config =
  suppress_errors :: bool
  directories :: dirpolicy
  binary_files :: binpolicy
  eolbyte :: char
  filename_mask :: int
  out_quiet_opt :: bool
  done_on_match_opt :: bool
  exit_on_match :: bool
  out_invert :: bool
  out_line :: bool
  out_byte :: bool
  out_before :: nat
  out_after :: nat
  count_matches :: bool
  list_files :: int
  no_filenames :: bool
  with_filenames :: bool
  max_count :: int
  execute :: "string \<Rightarrow> (nat \<times> nat) option"

datatype filetype = S_IFREG | S_IFDIR | S_IFOTHER

record stat =
  st_mode :: filetype
  st_ino :: nat
  st_dev :: nat
  st_size :: int

text \<open>What the system answers for one path (or for descriptor 0). An \<open>errno\<close> of 0
  means the call succeeds. \<open>f_data\<close> are the bytes \<^verbatim>\<open>read\<close> delivers; once they are
  used up \<^verbatim>\<open>read\<close> returns 0, or fails with \<open>f_read_errno\<close> when that is not 0.
  \<open>f_savedir\<close> is what \<^verbatim>\<open>savedir\<close> returns for a directory: its entry names, or
  \<open>None\<close> for a null pointer, with \<open>f_savedir_errno\<close> in \<^verbatim>\<open>errno\<close>. The loops that
  retry a call interrupted by \<^verbatim>\<open>EINTR\<close> are folded into the answer. In the environment,
  \<open>alloc n\<close> is the address \<^verbatim>\<open>malloc\<close> or \<^verbatim>\<open>realloc\<close> returns for \<open>n\<close> bytes (0 is the
  null pointer), \<open>stdout_ferror\<close> the error indicator of the output stream and
  \<open>stdout_fclose_eof\<close> whether closing it fails.\<close>

record fileinfo =
  f_open_errno :: nat
  f_stat_errno :: nat
  f_fstat_errno :: nat
  f_stat :: stat
  f_lseek_errno :: nat
  f_data :: string
  f_read_errno :: nat
  f_close_errno :: nat
  f_savedir :: "string list option"
  f_savedir_errno :: nat

record env =
  fs :: "string \<Rightarrow> fileinfo"
  stdin_file :: fileinfo
  getpagesize :: size_t
  alloc :: "size_t \<Rightarrow> size_t"
  stdout_ferror :: bool
  stdout_fclose_eof :: bool
  stdout_errno :: nat

text \<open>A line of the diagnostic stream: \<open>Diag mesg errnum\<close> is what \<^verbatim>\<open>error (mesg, errnum)\<close>
  prints, \<open>LoopWarning dir\<close> the warning of \<^verbatim>\<open>grepdir\<close>.\<close>

datatype diag = Diag string nat | LoopWarning string

record gstate =
  errseen :: bool
  errno :: nat
  stdout :: string
  stderr :: "diag list"
  filename :: string
  pagesize :: size_t
  bufsalloc :: size_t
  bufalloc :: size_t
  buffer :: size_t
  buf :: string
  bufoffset :: int
  stdin_pos :: nat
  stats_base :: stat
  after_last_match :: int
  out_quiet :: int
  out_file :: int
  done_on_match :: int
  totalcc :: int
  lastnl :: nat
  lastout :: "nat option"
  totalnl :: int
  outleft :: int
  pending :: nat
  used :: bool

datatype 'a outcome = Return 'a gstate | Exit int gstate | Undefined

definition obind :: "'a outcome \<Rightarrow> ('a \<Rightarrow> gstate \<Rightarrow> 'b outcome) \<Rightarrow> 'b outcome" where
  "obind m f = (case m of Return a s \<Rightarrow> f a s | Exit n s \<Rightarrow> Exit n s | Undefined \<Rightarrow> Undefined)"

lemma obind_Return:
  "obind m f = Return r s' \<longleftrightarrow> (\<exists>a s1. m = Return a s1 \<and> f a s1 = Return r s')"
  by (cases m) (auto simp: obind_def)

lemma obind_Exit:
  "obind m f = Exit k s' \<longleftrightarrow> m = Exit k s' \<or> (\<exists>a s1. m = Return a s1 \<and> f a s1 = Exit k s')"
  by (cases m) (auto simp: obind_def)

lemma obind_Undefined:
  "obind m f = Undefined \<longleftrightarrow> m = Undefined \<or> (\<exists>a s1. m = Return a s1 \<and> f a s1 = Undefined)"
  by (cases m) (auto simp: obind_def)

lemma obind_simps [simp]:
  "obind (Return a s) f = f a s"
  "obind (Exit k s) f = Exit k s"
  "obind Undefined f = Undefined"
  by (simp_all add: obind_def)

subsection \<open>Diagnostics\<close>

definition error :: "string \<Rightarrow> nat \<Rightarrow> gstate \<Rightarrow> gstate" where
  "error mesg errnum s = s\<lparr>stderr := stderr s @ [Diag mesg errnum]\<rparr>"

definition suppressible_error :: "config \<Rightarrow> string \<Rightarrow> nat \<Rightarrow> gstate \<Rightarrow> gstate" where
  "suppressible_error cfg mesg errnum s =
     (let s1 = (if \<not> suppress_errors cfg then error mesg errnum s else s)
      in s1\<lparr>errseen := True\<rparr>)"

definition fatal :: "string \<Rightarrow> nat \<Rightarrow> gstate \<Rightarrow> 'a outcome" where
  "fatal mesg errnum s = Exit 2 (error mesg errnum s)"

subsection \<open>Output formatter\<close>

text \<open>\<^verbatim>\<open>memchr (m + s, c, n)\<close>: the offset of the first \<open>c\<close> among the \<open>n\<close> bytes from
  offset \<open>s\<close>, or \<open>None\<close> for a null pointer.\<close>

definition memchr :: "string \<Rightarrow> nat \<Rightarrow> char \<Rightarrow> nat \<Rightarrow> nat option" where
  "memchr m s c n =
     (if c \<in> set (take n (drop s m))
      then Some (s + length (takeWhile (\<lambda>x. x \<noteq> c) (take n (drop s m))))
      else None)"

lemma takeWhile_neq_less:
  "c \<in> set r \<Longrightarrow> length (takeWhile (\<lambda>x. x \<noteq> c) r) < length r"
  by (induction r) auto

lemma nth_takeWhile_neq:
  "c \<in> set r \<Longrightarrow> r ! length (takeWhile (\<lambda>x. x \<noteq> c) r) = c"
  by (induction r) auto

lemma memchr_Some:
  assumes "memchr m s c n = Some k"
  shows "s \<le> k" and "k < s + n" and "k < length m" and "m ! k = c"
proof -
  define r where "r = take n (drop s m)"
  define t where "t = takeWhile (\<lambda>x. x \<noteq> c) r"
  from assms have mem: "c \<in> set r" and k: "k = s + length t"
    by (auto simp: memchr_def r_def t_def split: if_splits)
  have lt: "length t < length r"
    unfolding t_def by (rule takeWhile_neq_less [OF mem])
  have lr: "length r \<le> n" "length r \<le> length m - s"
    by (simp_all add: r_def)
  show "s \<le> k" using k by simp
  show "k < s + n" using k lt lr by simp
  show "k < length m" using k lt lr by simp
  have "r ! length t = c"
    unfolding t_def by (rule nth_takeWhile_neq [OF mem])
  then show "m ! k = c"
    using k lt lr by (simp add: r_def)
qed

text \<open>The loop of \<^verbatim>\<open>nlscan\<close>: from \<open>beg\<close>, count a line and step past the next
  end-of-line byte until \<open>beg\<close> is \<open>lim\<close>. Stepping from the null pointer that
  \<^verbatim>\<open>memchr\<close> returns when no end-of-line byte is left before \<open>lim\<close>, and scanning from
  beyond \<open>lim\<close>, are undefined: \<open>None\<close>.\<close>

function nlscan_loop :: "string \<Rightarrow> char \<Rightarrow> nat \<Rightarrow> nat \<Rightarrow> int \<Rightarrow> int option" where
  "nlscan_loop m eol beg lim n =
     (if beg = lim then Some n
      else if lim < beg then None
      else (case memchr m beg eol (lim - beg) of
              None \<Rightarrow> None
            | Some nl \<Rightarrow> nlscan_loop m eol (nl + 1) lim (n + 1)))"
  by pat_completeness auto
termination
  by (relation "measure (\<lambda>(m, eol, beg, lim, n). lim - beg)")
     (auto dest: memchr_Some(1) memchr_Some(2))

declare nlscan_loop.simps [simp del]

definition nlscan :: "config \<Rightarrow> nat \<Rightarrow> gstate \<Rightarrow> unit outcome" where
  "nlscan cfg lim s =
     (case nlscan_loop (buf s) (eolbyte cfg) (lastnl s) lim (totalnl s) of
        None \<Rightarrow> Undefined
      | Some n \<Rightarrow> Return () (s\<lparr>totalnl := n, lastnl := lim\<rparr>))"

definition fwrite :: "string \<Rightarrow> gstate \<Rightarrow> gstate" where
  "fwrite bytes s = s\<lparr>stdout := stdout s @ bytes\<rparr>"

text \<open>The digits of \<^verbatim>\<open>print_offset_sep\<close>, least significant first, put in front of
  what is already in the array; \<^verbatim>\<open>%\<close> and \<^verbatim>\<open>/\<close> truncate towards zero.\<close>

function offset_digits :: "int \<Rightarrow> string \<Rightarrow> string" where
  "offset_digits pos acc =
     (let acc' = char_of (48 + pos smod 10) # acc; pos' = pos sdiv 10
      in if pos' \<noteq> 0 then offset_digits pos' acc' else acc')"
  by pat_completeness auto
termination
  by (relation "measure (\<lambda>(pos, acc). nat \<bar>pos\<bar>)")
     (auto simp: signed_divide_int_def abs_mult sgn_if split: if_splits)

declare offset_digits.simps [simp del]

definition print_offset_sep :: "int \<Rightarrow> char \<Rightarrow> gstate \<Rightarrow> gstate" where
  "print_offset_sep pos sep s = fwrite (offset_digits pos [sep]) s"

definition sep_mask :: "char \<Rightarrow> int \<Rightarrow> char" where
  "sep_mask sep msk = char_of ((of_char sep :: int) AND msk)"

definition prline :: "config \<Rightarrow> env \<Rightarrow> nat \<Rightarrow> nat \<Rightarrow> char \<Rightarrow> gstate \<Rightarrow> unit outcome" where
  "prline cfg e beg lim sep s =
     (if lim < beg \<or> length (buf s) < lim then Undefined
      else
        let s1 = (if out_file s \<noteq> 0
                  then fwrite (filename s @ [sep_mask sep (filename_mask cfg)]) s else s)
        in obind
             (if out_line cfg
              then obind (nlscan cfg beg s1) (\<lambda>_ s2.
                     let s3 = s2\<lparr>totalnl := totalnl s2 + 1\<rparr>
                     in Return () ((print_offset_sep (totalnl s3) sep s3)\<lparr>lastnl := lim\<rparr>))
              else Return () s1)
             (\<lambda>_ s4.
                let s5 = (if out_byte cfg
                          then print_offset_sep (totalcc s4 + int beg) sep s4 else s4);
                    s6 = fwrite (take (lim - beg) (drop beg (buf s5))) s5;
                    s7 = (if stdout_ferror e then error ''writing output'' (stdout_errno e) s6
                          else s6)
                in Return () (s7\<lparr>lastout := Some lim\<rparr>)))"

lemma prline_pending:
  "prline cfg e beg lim sep s = Return u s' \<Longrightarrow> pending s' = pending s"
  by (auto simp: prline_def obind_def nlscan_def print_offset_sep_def fwrite_def error_def
        Let_def split: if_splits option.splits outcome.splits)

text \<open>The loop of \<^verbatim>\<open>prpending\<close>. Comparing the null pointer with \<open>lim\<close> is undefined;
  \<^verbatim>\<open>prpending\<close> stores \<^verbatim>\<open>bufbeg\<close> in \<^verbatim>\<open>lastout\<close> before the loop. A null \<open>nl\<close> is
  used in \<^verbatim>\<open>nl - lastout\<close> or in \<^verbatim>\<open>nl + 1\<close> on either branch.\<close>

function prpending_loop :: "config \<Rightarrow> env \<Rightarrow> nat \<Rightarrow> gstate \<Rightarrow> unit outcome" where
  "prpending_loop cfg e lim s =
     (case lastout s of
        None \<Rightarrow> Undefined
      | Some lo \<Rightarrow>
          if 0 < pending s \<and> lo < lim then
            (case memchr (buf s) lo (eolbyte cfg) (lim - lo) of
               None \<Rightarrow> Undefined
             | Some nl \<Rightarrow>
                 let s1 = s\<lparr>pending := pending s - 1\<rparr> in
                 if outleft s1 \<noteq> 0
                    \<or> ((execute cfg (take (nl - lo) (drop lo (buf s1))) = None)
                        = (\<not> out_invert cfg))
                 then (case prline cfg e lo (nl + 1) CHR ''-'' s1 of
                         Return u s2 \<Rightarrow> prpending_loop cfg e lim s2
                       | Exit n s2 \<Rightarrow> Exit n s2
                       | Undefined \<Rightarrow> Undefined)
                 else prpending_loop cfg e lim (s1\<lparr>pending := 0\<rparr>))
          else Return () s)"
  by pat_completeness auto
termination
  by (relation "measure (\<lambda>(cfg, e, lim, s). pending s)")
     (auto dest!: prline_pending)

declare prpending_loop.simps [simp del]

definition prpending :: "config \<Rightarrow> env \<Rightarrow> nat \<Rightarrow> gstate \<Rightarrow> unit outcome" where
  "prpending cfg e lim s =
     prpending_loop cfg e lim (if lastout s = None then s\<lparr>lastout := Some 0\<rparr> else s)"

text \<open>\<^verbatim>\<open>do --p; while (p > bp && p[-1] != eol);\<close>\<close>

function back_line :: "string \<Rightarrow> char \<Rightarrow> nat \<Rightarrow> nat \<Rightarrow> nat" where
  "back_line m eol bp p =
     (let p' = p - 1
      in if bp < p' \<and> m ! (p' - 1) \<noteq> eol then back_line m eol bp p' else p')"
  by pat_completeness auto
termination
  by (relation "measure (\<lambda>(m, eol, bp, p). p)") auto

declare back_line.simps [simp del]

text \<open>The \<^verbatim>\<open>for\<close> loop over the \<^verbatim>\<open>out_before\<close> lines of leading context.\<close>

fun leading_context :: "string \<Rightarrow> char \<Rightarrow> nat \<Rightarrow> nat \<Rightarrow> nat \<Rightarrow> nat" where
  "leading_context m eol bp 0 p = p"
| "leading_context m eol bp (Suc i) p =
     leading_context m eol bp i (if bp < p then back_line m eol bp p else p)"

definition puts :: "string \<Rightarrow> gstate \<Rightarrow> gstate" where
  "puts str s = fwrite (str @ [CHR 0x0A]) s"

text \<open>\<^verbatim>\<open>while (p < beg)\<close>: the lines of leading context, each printed with \<^verbatim>\<open>'-'\<close>.\<close>

function prcontext :: "config \<Rightarrow> env \<Rightarrow> nat \<Rightarrow> nat \<Rightarrow> gstate \<Rightarrow> nat outcome" where
  "prcontext cfg e p beg s =
     (if p < beg then
        (case memchr (buf s) p (eolbyte cfg) (beg - p) of
           None \<Rightarrow> Undefined
         | Some nl \<Rightarrow>
             (case prline cfg e p (nl + 1) CHR ''-'' s of
                Return u s1 \<Rightarrow> prcontext cfg e (nl + 1) beg s1
              | Exit n s1 \<Rightarrow> Exit n s1
              | Undefined \<Rightarrow> Undefined))
      else Return p s)"
  by pat_completeness auto
termination
  by (relation "measure (\<lambda>(cfg, e, p, beg, s). beg - p)")
     (auto dest: memchr_Some(1) memchr_Some(2))

declare prcontext.simps [simp del]

text \<open>\<^verbatim>\<open>for (n = 0; p < lim && n < outleft; n++)\<close>: the lines the caller wants
  counted, each printed with \<^verbatim>\<open>':'\<close> unless output is suppressed.\<close>

function prlines :: "config \<Rightarrow> env \<Rightarrow> nat \<Rightarrow> nat \<Rightarrow> int \<Rightarrow> gstate \<Rightarrow> (nat \<times> int) outcome" where
  "prlines cfg e p lim n s =
     (if p < lim \<and> n < outleft s then
        (case memchr (buf s) p (eolbyte cfg) (lim - p) of
           None \<Rightarrow> Undefined
         | Some nl \<Rightarrow>
             (case (if out_quiet s = 0 then prline cfg e p (nl + 1) CHR '':'' s
                    else Return () s) of
                Return u s1 \<Rightarrow> prlines cfg e (nl + 1) lim (n + 1) s1
              | Exit k s1 \<Rightarrow> Exit k s1
              | Undefined \<Rightarrow> Undefined))
      else Return (p, n) s)"
  by pat_completeness auto
termination
  by (relation "measure (\<lambda>(cfg, e, p, lim, n, s). lim - p)")
     (auto dest: memchr_Some(1) memchr_Some(2))

declare prlines.simps [simp del]

text \<open>\<^verbatim>\<open>prtext (beg, lim, nlinesp)\<close> in its three parts. First the block under
  \<^verbatim>\<open>if (!out_quiet)\<close>: the start \<open>p\<close> of the leading context, the \<^verbatim>\<open>"--"\<close> separator
  (\<^verbatim>\<open>puts\<close> ends it with a newline), and the lines of leading context. The result is
  \<open>p\<close> as the block leaves it.\<close>

definition prtext_leading :: "config \<Rightarrow> env \<Rightarrow> nat \<Rightarrow> gstate \<Rightarrow> nat outcome" where
  "prtext_leading cfg e beg s =
     (let bp = (case lastout s of Some lo \<Rightarrow> lo | None \<Rightarrow> 0);
          p = leading_context (buf s) (eolbyte cfg) bp (out_before cfg) beg;
          s1 = (if (out_before cfg \<noteq> 0 \<or> out_after cfg \<noteq> 0) \<and> used s \<and> Some p \<noteq> lastout s
                then puts ''--'' s else s)
      in prcontext cfg e p beg s1)"

text \<open>Then the matched lines: counted through \<open>nlinesp\<close> when it is not null (the
  result is the count), or the one line from \<open>beg\<close> to \<open>lim\<close>.\<close>

definition prtext_matched ::
  "config \<Rightarrow> env \<Rightarrow> nat \<Rightarrow> nat \<Rightarrow> bool \<Rightarrow> nat \<Rightarrow> gstate \<Rightarrow> int option outcome" where
  "prtext_matched cfg e beg lim nlinesp p s =
     (if nlinesp then
        obind (prlines cfg e p lim 0 s) (\<lambda>(p', n) s1.
          Return (Some n)
            (s1\<lparr>after_last_match := bufoffset s1 - (int (length (buf s1)) - int p')\<rparr>))
      else if out_quiet s = 0 then
        obind (prline cfg e beg lim CHR '':'' s) (\<lambda>_ s1. Return None s1)
      else Return None s)"

text \<open>\<open>nlinesp\<close> tells whether the pointer is non-null. The bytes before \<open>beg\<close> are
  read, so a \<open>beg\<close> beyond the buffer contents is undefined.\<close>

definition prtext :: "config \<Rightarrow> env \<Rightarrow> nat \<Rightarrow> nat \<Rightarrow> bool \<Rightarrow> gstate \<Rightarrow> int option outcome" where
  "prtext cfg e beg lim nlinesp s =
     (if length (buf s) < beg then Undefined
      else
        obind (if out_quiet s = 0 \<and> 0 < pending s then prpending cfg e beg s
               else Return () s) (\<lambda>_ s1.
        obind (if out_quiet s1 = 0 then prtext_leading cfg e beg s1 else Return beg s1)
          (\<lambda>p s2.
        obind (prtext_matched cfg e beg lim nlinesp p s2) (\<lambda>r s3.
        Return r (s3\<lparr>pending := (if out_quiet s3 \<noteq> 0 then 0 else out_after cfg),
                      used := True\<rparr>)))))"

subsection \<open>Match driver\<close>

text \<open>One turn of the \<^verbatim>\<open>while\<close> loop of \<^verbatim>\<open>grepbuf\<close> at scan position \<open>p\<close>: \<open>Next\<close>
  goes round again, \<open>Leave\<close> leaves the loop (its condition is false, or the
  \<^verbatim>\<open>break\<close>), \<open>Stop\<close> returns from \<^verbatim>\<open>grepbuf\<close> or exits. With \<open>lim < p\<close> the size
  \<^verbatim>\<open>lim - p\<close> handed to the matcher wraps around: undefined.\<close>

datatype step = Next nat int gstate | Leave int gstate | Stop "int outcome"

definition grepbuf_step :: "config \<Rightarrow> env \<Rightarrow> nat \<Rightarrow> nat \<Rightarrow> int \<Rightarrow> gstate \<Rightarrow> step" where
  "grepbuf_step cfg e lim p nlines s =
     (if lim < p then Stop Undefined
      else
        (case execute cfg (take (lim - p) (drop p (buf s))) of
           None \<Rightarrow> Leave nlines s
         | Some (match_offset, match_size) \<Rightarrow>
             let b = p + match_offset; endp = b + match_size in
             if b = lim then Leave nlines s
             else if \<not> out_invert cfg then
               (case prtext cfg e b endp False s of
                  Return r s1 \<Rightarrow>
                    let nlines1 = nlines + 1; s2 = s1\<lparr>outleft := outleft s1 - 1\<rparr> in
                    if outleft s2 = 0 \<or> done_on_match s2 \<noteq> 0 then
                      (if exit_on_match cfg then Stop (Exit 0 s2)
                       else Stop (Return nlines1
                              (s2\<lparr>after_last_match :=
                                     bufoffset s2 - (int (length (buf s2)) - int endp)\<rparr>)))
                    else Next endp nlines1 s2
                | Exit k s1 \<Rightarrow> Stop (Exit k s1)
                | Undefined \<Rightarrow> Stop Undefined)
             else if p < b then
               (case prtext cfg e p b True s of
                  Return r s1 \<Rightarrow>
                    let n = (case r of Some n \<Rightarrow> n | None \<Rightarrow> 0);
                        nlines1 = nlines + n;
                        s2 = s1\<lparr>outleft := outleft s1 - n\<rparr> in
                    if outleft s2 = 0 then Stop (Return nlines1 s2)
                    else Next endp nlines1 s2
                | Exit k s1 \<Rightarrow> Stop (Exit k s1)
                | Undefined \<Rightarrow> Stop Undefined)
             else Next endp nlines s))"

text \<open>After the loop: in inverted mode the lines of the last segment.\<close>

definition grepbuf_tail :: "config \<Rightarrow> env \<Rightarrow> nat \<Rightarrow> nat \<Rightarrow> int \<Rightarrow> gstate \<Rightarrow> int outcome" where
  "grepbuf_tail cfg e lim p nlines s =
     (if out_invert cfg \<and> p < lim then
        obind (prtext cfg e p lim True s) (\<lambda>r s1.
          let n = (case r of Some n \<Rightarrow> n | None \<Rightarrow> 0)
          in Return (nlines + n) (s1\<lparr>outleft := outleft s1 - n\<rparr>))
      else Return nlines s)"

text \<open>The loop runs for as long as the matcher makes it: \<open>None\<close> is a loop that never
  ends.\<close>

partial_function (option) grepbuf_loop ::
  "config \<Rightarrow> env \<Rightarrow> nat \<Rightarrow> nat \<Rightarrow> int \<Rightarrow> gstate \<Rightarrow> int outcome option" where
  "grepbuf_loop cfg e lim p nlines s =
     (case grepbuf_step cfg e lim p nlines s of
        Next p' nlines' s' \<Rightarrow> grepbuf_loop cfg e lim p' nlines' s'
      | Leave nlines' s' \<Rightarrow> Some (grepbuf_tail cfg e lim p nlines' s')
      | Stop r \<Rightarrow> Some r)"

declare grepbuf_loop.simps [code]

text \<open>\<^verbatim>\<open>grepbuf (beg, lim)\<close>; the matcher reads up to \<open>lim\<close>, which lies within the
  buffer contents.\<close>

definition grepbuf :: "config \<Rightarrow> env \<Rightarrow> nat \<Rightarrow> nat \<Rightarrow> gstate \<Rightarrow> int outcome option" where
  "grepbuf cfg e beg lim s =
     (if length (buf s) < lim then Some Undefined else grepbuf_loop cfg e lim beg 0 s)"

subsection \<open>Buffer manager\<close>

definition PREFERRED_SAVE_FACTOR :: size_t where
  "PREFERRED_SAVE_FACTOR = 5"

definition ALIGN_TO :: "size_t \<Rightarrow> size_t \<Rightarrow> size_t" where
  "ALIGN_TO val alignment =
     (if val mod alignment = 0 then val else val + (alignment - val mod alignment))"

text \<open>\<^verbatim>\<open>page_alloc (size, up)\<close>: the aligned address, or \<open>None\<close> for a null pointer.\<close>

definition page_alloc :: "env \<Rightarrow> size_t \<Rightarrow> size_t \<Rightarrow> size_t option" where
  "page_alloc e psize sz =
     (let asize = sz + psize - 1
      in if sz \<le> asize \<and> alloc e asize \<noteq> 0
         then Some (ALIGN_TO (alloc e asize) psize) else None)"

text \<open>\<^verbatim>\<open>abort ()\<close> ends the process on \<^verbatim>\<open>SIGABRT\<close>; its status is 134.\<close>

definition abort :: "gstate \<Rightarrow> 'a outcome" where
  "abort s = Exit 134 s"

text \<open>The part of \<^verbatim>\<open>reset\<close> that sizes the buffer: on the first call it asks for the
  page size and allocates, later it only realigns the save region.\<close>

definition reset_alloc :: "env \<Rightarrow> gstate \<Rightarrow> unit outcome" where
  "reset_alloc e s =
     (if pagesize s \<noteq> 0
      then Return () (s\<lparr>bufsalloc := ALIGN_TO (bufalloc s div PREFERRED_SAVE_FACTOR) (pagesize s)\<rparr>)
      else
        let s1 = s\<lparr>pagesize := getpagesize e\<rparr> in
        if pagesize s1 = 0 then abort s1
        else
          let ubufsalloc = (if 8192 > pagesize s1 then 8192 else pagesize s1);
              s2 = s1\<lparr>bufsalloc := ALIGN_TO ubufsalloc (pagesize s1)\<rparr>;
              s3 = s2\<lparr>bufalloc := PREFERRED_SAVE_FACTOR * bufsalloc s2\<rparr>
          in if bufsalloc s3 < ubufsalloc
                \<or> bufalloc s3 div PREFERRED_SAVE_FACTOR \<noteq> bufsalloc s3
             then fatal ''memory exhausted'' 0 s3
             else (case page_alloc e (pagesize s3) (bufalloc s3) of
                     None \<Rightarrow> fatal ''memory exhausted'' 0 s3
                   | Some b \<Rightarrow> Return () (s3\<lparr>buffer := b\<rparr>)))"

text \<open>The node \<^verbatim>\<open>stats\<close> points to is known by its chain of ancestors \<open>anc\<close>: the
  chain of \<^verbatim>\<open>stats_base\<close> is empty, that of a \<^verbatim>\<open>child\<close> of \<^verbatim>\<open>grepdir\<close> is not. What
  \<^verbatim>\<open>stat\<close> or \<^verbatim>\<open>fstat\<close> stores in \<^verbatim>\<open>stats_base\<close> stays there for the next file; what
  they store in a \<^verbatim>\<open>child\<close> is read only by the call that stored it, which has it as
  a value.\<close>

definition store_stat :: "stat list \<Rightarrow> stat \<Rightarrow> gstate \<Rightarrow> gstate" where
  "store_stat anc st s = (if anc = [] then s\<lparr>stats_base := st\<rparr> else s)"

text \<open>\<^verbatim>\<open>reset (fd, file, stats)\<close>: \<open>f\<close> is what the descriptor refers to and \<open>pos\<close>
  its file offset; the result is \<open>None\<close> for 0 and \<open>Some\<close> of the \<^verbatim>\<open>stat\<close> stored for 1.\<close>

definition reset ::
  "config \<Rightarrow> env \<Rightarrow> fileinfo \<Rightarrow> string option \<Rightarrow> stat list \<Rightarrow> nat \<Rightarrow> gstate \<Rightarrow> stat option outcome" where
  "reset cfg e f file anc pos s =
     obind (reset_alloc e s) (\<lambda>_ s1.
       let s2 = s1\<lparr>buf := []\<rparr> in
       if f_fstat_errno f \<noteq> 0
       then Return None (error ''fstat'' (f_fstat_errno f) (s2\<lparr>errno := f_fstat_errno f\<rparr>))
       else
         let st = f_stat f; s3 = store_stat anc st s2 in
         if directories cfg = SKIP_DIRECTORIES \<and> st_mode st = S_IFDIR then Return None s3
         else if st_mode st = S_IFREG then
           (if file \<noteq> None then Return (Some st) (s3\<lparr>bufoffset := 0\<rparr>)
            else if f_lseek_errno f \<noteq> 0
            then Return None
                   (error ''lseek'' (f_lseek_errno f)
                      (s3\<lparr>bufoffset := - 1, errno := f_lseek_errno f\<rparr>))
            else Return (Some st) (s3\<lparr>bufoffset := int pos\<rparr>))
         else Return (Some st) s3)"

text \<open>The loop of \<^verbatim>\<open>fillbuf\<close> that doubles \<^verbatim>\<open>bufsalloc\<close>.\<close>

lemma word_double_less:
  fixes b :: size_t
  shows "b < b * 2 \<Longrightarrow> unat b < unat (b * 2)"
  by (simp add: word_less_nat_alt)

function grow_save :: "size_t \<Rightarrow> size_t \<Rightarrow> size_t \<Rightarrow> size_t" where
  "grow_save b save aligned_save =
     (if b < save
      then (if b < b * 2 then grow_save (b * 2) save aligned_save else aligned_save)
      else b)"
  by pat_completeness auto
termination
  by (relation "measure (\<lambda>(b, save, aligned_save). unat save - unat b)")
     (auto simp: word_less_nat_alt)

declare grow_save.simps [simp del]

text \<open>The bound on the allocation for a regular file. \<^verbatim>\<open>off_t\<close> and \<^verbatim>\<open>size_t\<close> have
  the same width, so the mixed expressions are computed in \<^verbatim>\<open>size_t\<close> and read back as
  signed, and \<^verbatim>\<open>maxalloc_off == (size_t) maxalloc_off\<close> always holds.\<close>

definition fillbuf_maxalloc :: "stat \<Rightarrow> size_t \<Rightarrow> size_t \<Rightarrow> int \<Rightarrow> size_t" where
  "fillbuf_maxalloc st psize aligned_save boffset =
     (if st_mode st = S_IFREG then
        let to_be_read = st_size st - boffset;
            slop = (word_of_int to_be_read :: size_t) mod psize;
            aligned_to_be_read =
              sint (word_of_int to_be_read + (if slop \<noteq> 0 then psize - slop else 0) :: size_t);
            maxalloc_off = sint (aligned_save + word_of_int aligned_to_be_read :: size_t)
        in if 0 \<le> maxalloc_off then word_of_int maxalloc_off else - 1
      else - 1)"

text \<open>The block of \<^verbatim>\<open>fillbuf\<close> under \<^verbatim>\<open>if (bufsalloc < save)\<close>.\<close>

definition fillbuf_grow :: "env \<Rightarrow> stat \<Rightarrow> size_t \<Rightarrow> gstate \<Rightarrow> unit outcome" where
  "fillbuf_grow e st save s =
     (let aligned_save = ALIGN_TO save (pagesize s);
          maxalloc = fillbuf_maxalloc st (pagesize s) aligned_save (bufoffset s);
          s1 = s\<lparr>bufsalloc := grow_save (bufsalloc s) save aligned_save\<rparr>;
          newalloc0 = PREFERRED_SAVE_FACTOR * bufsalloc s1;
          newalloc = (if maxalloc < newalloc0 then maxalloc else newalloc0);
          s2 = (if maxalloc < newalloc0 then s1\<lparr>bufsalloc := aligned_save\<rparr> else s1)
      in if bufsalloc s2 < save \<or> newalloc < save \<or> (newalloc = save \<and> newalloc \<noteq> maxalloc)
         then fatal ''memory exhausted'' 0 s2
         else if bufalloc s2 < newalloc then
           (let s3 = s2\<lparr>bufalloc := newalloc\<rparr> in
            case page_alloc e (pagesize s3) (bufalloc s3 + 1) of
              None \<Rightarrow> fatal ''memory exhausted'' 0 s3
            | Some b \<Rightarrow> Return () (s3\<lparr>buffer := b\<rparr>))
         else Return () s2)"

text \<open>\<^verbatim>\<open>fillbuf (save, stats)\<close>, reading descriptor \<open>f\<close> at offset \<open>pos\<close>: the result is
  \<^verbatim>\<open>cc\<close> and the new offset. The saved bytes are the last \<open>save\<close> bytes before
  \<^verbatim>\<open>buflim\<close>; more than the buffer holds would start before \<^verbatim>\<open>bufbeg\<close>.\<close>

definition fillbuf ::
  "env \<Rightarrow> fileinfo \<Rightarrow> stat \<Rightarrow> nat \<Rightarrow> nat \<Rightarrow> gstate \<Rightarrow> (bool \<times> nat) outcome" where
  "fillbuf e f st save pos s =
     (if length (buf s) < save then Undefined
      else
        obind (if bufsalloc s < of_nat save then fillbuf_grow e st (of_nat save) s
               else Return () s) (\<lambda>_ s1.
          let saved = drop (length (buf s1) - save) (buf s1);
              readsize = bufalloc s1 - bufsalloc s1;
              rest = drop pos (f_data f)
          in if rest = [] \<and> f_read_errno f \<noteq> 0
             then Return (False, pos) (s1\<lparr>errno := f_read_errno f, buf := saved\<rparr>)
             else
               let bytes = take (unat readsize) rest
               in Return (True, pos + length bytes)
                    (s1\<lparr>bufoffset := bufoffset s1 + int (length bytes),
                        buf := saved @ bytes\<rparr>)))"

lemma fillbuf_Return:
  assumes "fillbuf e f st save pos s = Return (True, pos') s'"
  shows "\<exists>k. pos' = pos + k \<and> length (buf s') = save + k \<and> k \<le> length (f_data f) - pos"
proof -
  from assms have le: "save \<le> length (buf s)"
    by (auto simp: fillbuf_def split: if_splits)
  define m where "m = (if bufsalloc s < of_nat save then fillbuf_grow e st (of_nat save) s
                       else Return () s)"
  from assms le obtain s1 where m: "m = Return () s1"
    by (cases m) (auto simp: fillbuf_def obind_def m_def [symmetric])
  have b: "buf s1 = buf s"
    using m
    by (auto simp: m_def fillbuf_grow_def fatal_def Let_def
          split: if_splits option.splits)
  show ?thesis
    using assms le b
    by (auto simp: fillbuf_def obind_def m_def [symmetric] m Let_def split: if_splits)
qed

subsection \<open>File driver\<close>

definition EACCES :: nat where
  "EACCES = 13"

definition EISDIR :: nat where
  "EISDIR = 21"

definition EINVAL :: nat where
  "EINVAL = 22"

text \<open>Modelled from the spec: the macro \<^verbatim>\<open>is_EISDIR\<close> of \<^verbatim>\<open>system.h\<close>, which is not
  among the sources; the spec has an open failure "classified as is a directory", which
  on a POSIX host is the error number \<^verbatim>\<open>EISDIR\<close>.\<close>

definition is_EISDIR :: "nat \<Rightarrow> string option \<Rightarrow> bool" where
  "is_EISDIR en file = (en = EISDIR)"

text \<open>\<^verbatim>\<open>for (lim = buflim; lim > beg && lim[-1] != eol; --lim);\<close>\<close>

function lim_scan :: "string \<Rightarrow> char \<Rightarrow> nat \<Rightarrow> nat \<Rightarrow> nat" where
  "lim_scan m eol beg lim =
     (if beg < lim \<and> m ! (lim - 1) \<noteq> eol then lim_scan m eol beg (lim - 1) else lim)"
  by pat_completeness auto
termination
  by (relation "measure (\<lambda>(m, eol, beg, lim). lim)") auto

declare lim_scan.simps [simp del]

text \<open>The loop of \<^verbatim>\<open>grep\<close> that moves \<open>beg\<close> back over the lines kept as leading
  context for the next buffer.\<close>

fun save_context :: "string \<Rightarrow> char \<Rightarrow> nat option \<Rightarrow> nat \<Rightarrow> nat \<Rightarrow> nat" where
  "save_context m eol lo 0 beg = beg"
| "save_context m eol lo (Suc i) beg =
     (if 0 < beg \<and> Some beg \<noteq> lo then save_context m eol lo i (back_line m eol 0 beg)
      else beg)"

text \<open>One turn of the \<^verbatim>\<open>for (;;)\<close> loop of \<^verbatim>\<open>grep\<close>, from the computation of \<open>beg\<close>
  up to the call of \<^verbatim>\<open>fillbuf\<close>, in three definitions. \<open>grep_search\<close> is the block
  under \<^verbatim>\<open>if (beg < lim)\<close>: its result is \<^verbatim>\<open>nlines\<close> and whether the \<^verbatim>\<open>goto\<close> is taken;
  \<open>None\<close> when \<^verbatim>\<open>grepbuf\<close> does not return.\<close>

definition grep_search ::
  "config \<Rightarrow> env \<Rightarrow> nat \<Rightarrow> nat \<Rightarrow> int \<Rightarrow> gstate \<Rightarrow> (int \<times> bool) outcome option" where
  "grep_search cfg e beg lim nlines s =
     (case (if outleft s \<noteq> 0 then grepbuf cfg e beg lim s else Some (Return 0 s)) of
        None \<Rightarrow> None
      | Some r \<Rightarrow> Some (obind r (\<lambda>n s1.
          obind (if pending s1 \<noteq> 0 then prpending cfg e lim s1 else Return () s1)
            (\<lambda>_ s2.
               Return (nlines + n,
                       (outleft s2 = 0 \<and> pending s2 = 0)
                       \<or> (nlines + n \<noteq> 0 \<and> done_on_match s2 \<noteq> 0 \<and> \<not> out_invert cfg))
                 s2))))"

text \<open>\<open>grep_save\<close> is the code from \<^verbatim>\<open>i = 0; beg = lim;\<close> to the call of \<^verbatim>\<open>nlscan\<close>:
  it chooses what to keep for the next buffer. \<open>Refill save residue nlines\<close> goes on
  to \<^verbatim>\<open>fillbuf\<close>; \<open>Finish nlines\<close> is the \<^verbatim>\<open>goto finish_grep\<close>.\<close>

datatype loopctl = Refill nat nat int | Finish int

definition grep_save :: "config \<Rightarrow> nat \<Rightarrow> nat \<Rightarrow> int \<Rightarrow> gstate \<Rightarrow> loopctl outcome" where
  "grep_save cfg lim residue nlines s =
     (let beg = save_context (buf s) (eolbyte cfg) (lastout s) (out_before cfg) lim;
          s1 = (if Some beg \<noteq> lastout s then s\<lparr>lastout := None\<rparr> else s);
          save = residue + lim - beg;
          s2 = s1\<lparr>totalcc := totalcc s1 + (int (length (buf s1)) - int save)\<rparr>
      in obind (if out_line cfg then nlscan cfg beg s2 else Return () s2)
           (\<lambda>_ s3. Return (Refill save residue nlines) s3))"

definition grep_scan ::
  "config \<Rightarrow> env \<Rightarrow> nat \<Rightarrow> nat \<Rightarrow> int \<Rightarrow> gstate \<Rightarrow> loopctl outcome option" where
  "grep_scan cfg e save residue nlines s =
     (let beg = save - residue;
          lim = lim_scan (buf s) (eolbyte cfg) beg (length (buf s));
          residue1 = length (buf s) - lim
      in
      case (if beg < lim then grep_search cfg e beg lim nlines s
            else Some (Return (nlines, False) s)) of
        None \<Rightarrow> None
      | Some r \<Rightarrow> Some (obind r (\<lambda>(nlines1, fin) s1.
          if fin then Return (Finish nlines1) s1
          else grep_save cfg lim residue1 nlines1 s1)))"

text \<open>After the loop: \<^verbatim>\<open>if (residue)\<close>, the last line gets its end-of-line byte, written
  at \<^verbatim>\<open>buflim\<close>.\<close>

definition grep_residue ::
  "config \<Rightarrow> env \<Rightarrow> nat \<Rightarrow> nat \<Rightarrow> int \<Rightarrow> gstate \<Rightarrow> int outcome option" where
  "grep_residue cfg e save residue nlines s =
     (if residue \<noteq> 0 then
        let s1 = s\<lparr>buf := buf s @ [eolbyte cfg]\<rparr> in
        case (if outleft s1 \<noteq> 0 then grepbuf cfg e (save - residue) (length (buf s1)) s1
              else Some (Return 0 s1)) of
          None \<Rightarrow> None
        | Some r \<Rightarrow> Some (obind r (\<lambda>n s2.
            obind (if pending s2 \<noteq> 0 then prpending cfg e (length (buf s2)) s2
                   else Return () s2)
              (\<lambda>_ s3. Return (nlines + n) s3)))
      else Some (Return nlines s))"

text \<open>The \<^verbatim>\<open>for (;;)\<close> loop of \<^verbatim>\<open>grep\<close> with the code that follows it, up to the label
  \<^verbatim>\<open>finish_grep\<close>. The result is \<^verbatim>\<open>nlines\<close> and the offset of the descriptor.\<close>

function grep_loop ::
  "config \<Rightarrow> env \<Rightarrow> fileinfo \<Rightarrow> stat \<Rightarrow> string option \<Rightarrow> nat \<Rightarrow> nat \<Rightarrow> int \<Rightarrow> nat \<Rightarrow> gstate
   \<Rightarrow> (int \<times> nat) outcome option" where
  "grep_loop cfg e f st file save residue nlines pos s0 =
     (let s = s0\<lparr>lastnl := 0, lastout := (if lastout s0 \<noteq> None then Some 0 else None)\<rparr> in
      if length (buf s0) = save then
        (case grep_residue cfg e save residue nlines s of
           None \<Rightarrow> None
         | Some r \<Rightarrow> Some (obind r (\<lambda>n s1. Return (n, pos) s1)))
      else
        (case grep_scan cfg e save residue nlines s of
           None \<Rightarrow> None
         | Some Undefined \<Rightarrow> Some Undefined
         | Some (Exit k s1) \<Rightarrow> Some (Exit k s1)
         | Some (Return (Finish n) s1) \<Rightarrow> Some (Return (n, pos) s1)
         | Some (Return (Refill save1 residue1 nlines1) s1) \<Rightarrow>
             (case fillbuf e f st save1 pos s1 of
                Undefined \<Rightarrow> Some Undefined
              | Exit k s2 \<Rightarrow> Some (Exit k s2)
              | Return (cc, pos1) s2 \<Rightarrow>
                  if cc then grep_loop cfg e f st file save1 residue1 nlines1 pos1 s2
                  else Some (Return (nlines1, pos1)
                         (if \<not> is_EISDIR (errno s2) file
                          then suppressible_error cfg (filename s2) (errno s2) s2 else s2)))))"
  by pat_completeness auto
termination
  by (relation "measure (\<lambda>(cfg, e, f, st, file, save, residue, nlines, pos, s).
           (length (f_data f) - pos) + (if length (buf s) = save then 0 else 1))")
     (auto dest!: fillbuf_Return)

declare grep_loop.simps [simp del]

text \<open>The value of \<^verbatim>\<open>not_text\<close> in \<^verbatim>\<open>grep\<close>: 1 when the binary-files policy asks for
  the test and the first buffer holds a NUL byte (the byte 0x80 when the end-of-line byte
  is NUL), else 0.\<close>

definition not_text_of :: "config \<Rightarrow> gstate \<Rightarrow> int" where
  "not_text_of cfg s =
     of_bool (((binary_files cfg = BINARY_BINARY_FILES \<and> out_quiet s = 0)
               \<or> binary_files cfg = WITHOUT_MATCH_BINARY_FILES)
              \<and> memchr (buf s) 0 (if eolbyte cfg \<noteq> CHR 0x00 then CHR 0x00 else CHR 0x80)
                   (length (buf s)) \<noteq> None)"

text \<open>The code of \<^verbatim>\<open>grep\<close> at the label \<^verbatim>\<open>finish_grep\<close>.\<close>

definition finish_grep :: "config \<Rightarrow> int \<Rightarrow> int \<times> nat \<Rightarrow> gstate \<Rightarrow> (int \<times> nat) outcome" where
  "finish_grep cfg not_text np s =
     (let s1 = s\<lparr>done_on_match := done_on_match s - not_text,
                 out_quiet := out_quiet s - not_text\<rparr>;
          s2 = (if (not_text AND NOT (out_quiet s1)) \<noteq> 0 \<and> fst np \<noteq> 0
                then fwrite (''Binary file '' @ filename s1 @ '' matches'' @ [CHR 0x0A]) s1
                else s1)
      in Return np s2)"

text \<open>\<^verbatim>\<open>grep\<close> from the assignment \<^verbatim>\<open>totalcc = 0\<close> to its end: the scan of a file
  that is not searched as a directory. The result is the count and the offset of the
  descriptor.\<close>

definition grep_file ::
  "config \<Rightarrow> env \<Rightarrow> fileinfo \<Rightarrow> stat \<Rightarrow> string option \<Rightarrow> nat \<Rightarrow> gstate
   \<Rightarrow> (int \<times> nat) outcome option" where
  "grep_file cfg e f st file pos s =
     (let s1 = s\<lparr>totalcc := 0, lastout := None, totalnl := 0, outleft := max_count cfg,
                 after_last_match := 0, pending := 0\<rparr>
      in case fillbuf e f st 0 pos s1 of
           Undefined \<Rightarrow> Some Undefined
         | Exit k s2 \<Rightarrow> Some (Exit k s2)
         | Return (cc, pos1) s2 \<Rightarrow>
             if \<not> cc
             then Some (Return (0, pos1)
                    (if \<not> is_EISDIR (errno s2) file
                     then suppressible_error cfg (filename s2) (errno s2) s2 else s2))
             else
               let not_text = not_text_of cfg s2
               in if not_text \<noteq> 0 \<and> binary_files cfg = WITHOUT_MATCH_BINARY_FILES
                  then Some (Return (0, pos1) s2)
                  else
                    (case grep_loop cfg e f st file 0 0 0 pos1
                            (s2\<lparr>done_on_match := done_on_match s2 + not_text,
                                out_quiet := out_quiet s2 + not_text\<rparr>) of
                       None \<Rightarrow> None
                     | Some r \<Rightarrow> Some (obind r (finish_grep cfg not_text))))"

text \<open>\<^verbatim>\<open>grepfile\<close> from the test of \<^verbatim>\<open>count\<close> to its end. \<^verbatim>\<open>count\<close> is not negative
  where it is printed. \<^verbatim>\<open>lseek\<close> to a negative offset fails with \<^verbatim>\<open>EINVAL\<close>.\<close>

definition grepfile_finish ::
  "config \<Rightarrow> fileinfo \<Rightarrow> string option \<Rightarrow> int \<Rightarrow> gstate \<Rightarrow> int outcome" where
  "grepfile_finish cfg f file count s =
     (if count < 0 then Return (count + 2) s
      else
        let s1 = (if count_matches cfg then
                    fwrite (offset_digits count [CHR 0x0A])
                      (if out_file s \<noteq> 0
                       then fwrite (filename s @ [sep_mask CHR '':'' (filename_mask cfg)]) s
                       else s)
                  else s);
            status = (of_bool (count = 0) :: int);
            s2 = (if list_files cfg = 1 - 2 * status
                  then fwrite (filename s1 @ [sep_mask CHR 0x0A (filename_mask cfg)]) s1
                  else s1);
            s3 = (case file of
                    None \<Rightarrow>
                      let required_offset =
                            (if outleft s2 \<noteq> 0 then bufoffset s2 else after_last_match s2)
                      in if required_offset \<noteq> bufoffset s2 then
                           (if f_lseek_errno f \<noteq> 0 \<or> required_offset < 0 then
                              let en = (if f_lseek_errno f \<noteq> 0 then f_lseek_errno f
                                        else EINVAL);
                                  s' = s2\<lparr>errno := en\<rparr>
                              in if st_mode (stats_base s') = S_IFREG
                                 then error (filename s') en s' else s'
                            else s2\<lparr>stdin_pos := nat required_offset\<rparr>)
                         else s2
                  | Some path \<Rightarrow>
                      if f_close_errno f \<noteq> 0
                      then error path (f_close_errno f) (s2\<lparr>errno := f_close_errno f\<rparr>)
                      else s2)
        in Return status s3)"

text \<open>\<^verbatim>\<open>grepfile\<close> when \<^verbatim>\<open>open\<close> has failed with \<open>en\<close> and the directory is not
  searched recursively.\<close>

definition grepfile_open_failed ::
  "config \<Rightarrow> fileinfo \<Rightarrow> string \<Rightarrow> stat list \<Rightarrow> nat \<Rightarrow> gstate \<Rightarrow> int outcome" where
  "grepfile_open_failed cfg f path anc en s =
     (if \<not> suppress_errors cfg \<and> directories cfg = SKIP_DIRECTORIES \<and> en = EISDIR
      then Return 1 s
      else if \<not> suppress_errors cfg \<and> directories cfg = SKIP_DIRECTORIES \<and> en = EACCES then
        (if f_stat_errno f = 0 then
           (let s1 = store_stat anc (f_stat f) s in
            if st_mode (f_stat f) = S_IFDIR then Return 1 s1
            else Return 1 (suppressible_error cfg path en s1))
         else Return 1 (suppressible_error cfg path en (s\<lparr>errno := f_stat_errno f\<rparr>)))
      else Return 1 (suppressible_error cfg path en s))"

text \<open>The path of an entry: \<^verbatim>\<open>FILESYSTEM_PREFIX_LEN\<close> is 0 and \<^verbatim>\<open>IS_SLASH\<close> tests for
  \<^verbatim>\<open>'/'\<close> on a POSIX host.\<close>

definition entry_path :: "string \<Rightarrow> string \<Rightarrow> string" where
  "entry_path dir name =
     (let needs_slash = \<not> (length dir = 0 \<or> last dir = CHR ''/'')
      in dir @ (if needs_slash then ''/'' else []) @ name)"

text \<open>\<^verbatim>\<open>grepfile\<close>, \<^verbatim>\<open>grep\<close> and \<^verbatim>\<open>grepdir\<close> call each other; \<open>grepdir_loop\<close> is the
  \<^verbatim>\<open>while (*namep)\<close> loop of \<^verbatim>\<open>grepdir\<close>. The first argument bounds the depth of
  directories: \<^verbatim>\<open>grepdir\<close> gives \<open>None\<close> when it is used up. \<open>st\<close> is \<^verbatim>\<open>stats->stat\<close>,
  \<open>anc\<close> the \<^verbatim>\<open>stat\<close> of \<^verbatim>\<open>stats->parent\<close> and of its ancestors, nearest first.\<close>

function (sequential) grepfile :: "nat \<Rightarrow> config \<Rightarrow> env \<Rightarrow> string option \<Rightarrow> stat list \<Rightarrow> gstate \<Rightarrow> int outcome option"
  and grep ::
    "nat \<Rightarrow> config \<Rightarrow> env \<Rightarrow> fileinfo \<Rightarrow> string option \<Rightarrow> stat list \<Rightarrow> nat \<Rightarrow> gstate
     \<Rightarrow> int outcome option"
  and grepdir ::
    "nat \<Rightarrow> config \<Rightarrow> env \<Rightarrow> string \<Rightarrow> stat \<Rightarrow> stat list \<Rightarrow> gstate \<Rightarrow> int outcome option"
  and grepdir_loop ::
    "nat \<Rightarrow> config \<Rightarrow> env \<Rightarrow> string \<Rightarrow> stat list \<Rightarrow> string list \<Rightarrow> int \<Rightarrow> gstate
     \<Rightarrow> int outcome option"
where
  "grepfile n cfg e file anc s =
     (case file of
        None \<Rightarrow>
          (case grep n cfg e (stdin_file e) None anc (stdin_pos s)
                  (s\<lparr>filename := ''(standard input)''\<rparr>) of
             None \<Rightarrow> None
           | Some r \<Rightarrow> Some (obind r (grepfile_finish cfg (stdin_file e) None)))
      | Some path \<Rightarrow>
          let f = fs e path in
          if f_open_errno f \<noteq> 0 then
            (let en = f_open_errno f; s1 = s\<lparr>errno := en\<rparr> in
             if is_EISDIR en file \<and> directories cfg = RECURSE_DIRECTORIES then
               (if f_stat_errno f \<noteq> 0
                then Some (Return 1 (error path (f_stat_errno f) (s1\<lparr>errno := f_stat_errno f\<rparr>)))
                else grepdir n cfg e path (f_stat f) anc (store_stat anc (f_stat f) s1))
             else Some (grepfile_open_failed cfg f path anc en s1))
          else
            (case grep n cfg e f file anc 0 (s\<lparr>filename := path\<rparr>) of
               None \<Rightarrow> None
             | Some r \<Rightarrow> Some (obind r (grepfile_finish cfg f file))))"
| "grep n cfg e f file anc pos s =
     (case reset cfg e f file anc pos s of
        Undefined \<Rightarrow> Some Undefined
      | Exit k s1 \<Rightarrow> Some (Exit k s1)
      | Return None s1 \<Rightarrow> Some (Return 0 s1)
      | Return (Some st) s1 \<Rightarrow>
          if file \<noteq> None \<and> directories cfg = RECURSE_DIRECTORIES \<and> st_mode st = S_IFDIR then
            (let path = the file;
                 s2 = (if f_close_errno f \<noteq> 0
                       then error path (f_close_errno f) (s1\<lparr>errno := f_close_errno f\<rparr>)
                       else s1)
             in case grepdir n cfg e path st anc s2 of
                  None \<Rightarrow> None
                | Some r \<Rightarrow> Some (obind r (\<lambda>status s3. Return (status - 2) s3)))
          else
            (case grep_file cfg e f st file pos s1 of
               None \<Rightarrow> None
             | Some r \<Rightarrow> Some (obind r (\<lambda>(count, pos1) s2.
                 Return count (if file = None then s2\<lparr>stdin_pos := pos1\<rparr> else s2)))))"
| "grepdir 0 cfg e dir st anc s = None"
| "grepdir (Suc n) cfg e dir st anc s =
     (if list_ex (\<lambda>a. st_ino a = st_ino st \<and> st_dev a = st_dev st) anc
      then Some (Return 1
             (if \<not> suppress_errors cfg then s\<lparr>stderr := stderr s @ [LoopWarning dir]\<rparr> else s))
      else
        (case f_savedir (fs e dir) of
           None \<Rightarrow>
             (let en = f_savedir_errno (fs e dir); s1 = s\<lparr>errno := en\<rparr> in
              if en \<noteq> 0 then Some (Return 1 (suppressible_error cfg dir en s1))
              else Some (fatal ''Memory exhausted'' 0 s1))
         | Some names \<Rightarrow>
             (let s1 = s\<lparr>out_file := out_file s + of_bool (\<not> no_filenames cfg)\<rparr> in
              case grepdir_loop n cfg e dir (st # anc) names 1 s1 of
                None \<Rightarrow> None
              | Some r \<Rightarrow> Some (obind r (\<lambda>status s2.
                  Return status
                    (s2\<lparr>out_file := out_file s2 - of_bool (\<not> no_filenames cfg)\<rparr>))))))"
| "grepdir_loop n cfg e dir chain [] status s = Some (Return status s)"
| "grepdir_loop n cfg e dir chain (name # names) status s =
     (if name = [] then Some (Return status s)
      else if alloc e (of_nat (length dir + 1 + length name + 1)) = 0
      then Some (fatal ''memory exhausted'' 0 s)
      else
        (case grepfile n cfg e (Some (entry_path dir name)) chain s of
           None \<Rightarrow> None
         | Some Undefined \<Rightarrow> Some Undefined
         | Some (Exit k s1) \<Rightarrow> Some (Exit k s1)
         | Some (Return r s1) \<Rightarrow> grepdir_loop n cfg e dir chain names (status AND r) s1))"

  by pat_completeness auto
termination
  apply (relation "inv_image (less_than <*lex*> less_than <*lex*> less_than)
      (\<lambda>x. case x of
          Inl (Inl (n, cfg, e, file, anc, s)) \<Rightarrow> (n, 3::nat, 0::nat)
        | Inl (Inr (n, cfg, e, f, file, anc, pos, s)) \<Rightarrow> (n, 2, 0)
        | Inr (Inl (n, cfg, e, dir, st, anc, s)) \<Rightarrow> (n, 1, 0)
        | Inr (Inr (n, cfg, e, dir, chain, names, status, s)) \<Rightarrow> (n, 4, length names))")
         apply blast
        apply simp_all
  done

declare grepfile.simps [simp del] grep.simps [simp del] grepdir.simps [simp del]
  grepdir_loop.simps [simp del]

subsection \<open>The end of main\<close>

text \<open>The variables of the program before the first file: the statics are zero, the
  option variables have the values the options gave them.\<close>

definition init_state :: "config \<Rightarrow> gstate" where
  "init_state cfg =
     \<lparr>errseen = False, errno = 0, stdout = [], stderr = [], filename = [],
      pagesize = 0, bufsalloc = 0, bufalloc = 0, buffer = 0, buf = [], bufoffset = 0,
      stdin_pos = 0,
      stats_base = \<lparr>st_mode = S_IFOTHER, st_ino = 0, st_dev = 0, st_size = 0\<rparr>,
      after_last_match = 0,
      out_quiet = of_bool (out_quiet_opt cfg), out_file = 0,
      done_on_match = of_bool (done_on_match_opt cfg),
      totalcc = 0, lastnl = 0, lastout = None, totalnl = 0, outleft = 0, pending = 0,
      used = False\<rparr>"

text \<open>The \<^verbatim>\<open>do ... while (++optind < argc)\<close> loop of \<^verbatim>\<open>main\<close> over the file operands.\<close>

fun main_loop ::
  "nat \<Rightarrow> config \<Rightarrow> env \<Rightarrow> string list \<Rightarrow> int \<Rightarrow> gstate \<Rightarrow> int outcome option" where
  "main_loop n cfg e [] status s = Some (Return status s)"
| "main_loop n cfg e (file # files) status s =
     (case grepfile n cfg e (if file = ''-'' then None else Some file) [] s of
        None \<Rightarrow> None
      | Some Undefined \<Rightarrow> Some Undefined
      | Some (Exit k s1) \<Rightarrow> Some (Exit k s1)
      | Some (Return r s1) \<Rightarrow> main_loop n cfg e files (status AND r) s1)"

text \<open>\<^verbatim>\<open>main\<close> from the test \<^verbatim>\<open>argc - optind > 1\<close> to its end, in four definitions;
  \<open>files\<close> are the operands \<^verbatim>\<open>argv[optind]\<close>, ... that follow the pattern.
  \<open>main_start\<close> is the state once \<^verbatim>\<open>out_file\<close> is set, \<open>main_search\<close> the search of
  the operands, or of standard input when there is none, and \<open>main_exit\<close> the code that
  follows it: \<^verbatim>\<open>fclose (stdout)\<close> and \<^verbatim>\<open>exit (errseen ? 2 : status)\<close>.\<close>

definition main_start :: "config \<Rightarrow> string list \<Rightarrow> gstate" where
  "main_start cfg files =
     (let s0 = init_state cfg
      in if (1 < length files \<and> \<not> no_filenames cfg) \<or> with_filenames cfg
         then s0\<lparr>out_file := 1\<rparr> else s0)"

definition main_search ::
  "nat \<Rightarrow> config \<Rightarrow> env \<Rightarrow> string list \<Rightarrow> gstate \<Rightarrow> int outcome option" where
  "main_search n cfg e files s =
     (if files \<noteq> [] then main_loop n cfg e files 1 s else grepfile n cfg e None [] s)"

definition main_exit :: "env \<Rightarrow> int \<Rightarrow> gstate \<Rightarrow> int outcome" where
  "main_exit e status s =
     (let s1 = (if stdout_fclose_eof e then error ''writing output'' (stdout_errno e) s
                else s)
      in Exit (if errseen s1 then 2 else status) s1)"

definition main :: "nat \<Rightarrow> config \<Rightarrow> env \<Rightarrow> string list \<Rightarrow> int outcome option" where
  "main n cfg e files =
     (let s1 = main_start cfg files
      in if max_count cfg = 0 then Some (Exit 1 s1)
         else
           (case main_search n cfg e files s1 of
              None \<Rightarrow> None
            | Some r \<Rightarrow> Some (obind r (main_exit e))))"

section \<open>Predicates and sample inputs\<close>

text \<open>What the output formatter and the match driver leave alone: of the process state
  they change only the output streams, the line counter (\<^verbatim>\<open>totalnl\<close>, \<^verbatim>\<open>lastnl\<close>), the
  output cursor \<^verbatim>\<open>lastout\<close>, \<^verbatim>\<open>pending\<close>, \<^verbatim>\<open>used\<close>, \<^verbatim>\<open>outleft\<close> and
  \<^verbatim>\<open>after_last_match\<close>.\<close>

definition scan_frame :: "gstate \<Rightarrow> gstate \<Rightarrow> bool" where
  "scan_frame s s' \<longleftrightarrow>
     errseen s' = errseen s \<and> errno s' = errno s \<and> filename s' = filename s
     \<and> pagesize s' = pagesize s \<and> bufsalloc s' = bufsalloc s \<and> bufalloc s' = bufalloc s
     \<and> buffer s' = buffer s \<and> buf s' = buf s \<and> bufoffset s' = bufoffset s
     \<and> stdin_pos s' = stdin_pos s \<and> stats_base s' = stats_base s
     \<and> out_quiet s' = out_quiet s \<and> out_file s' = out_file s
     \<and> done_on_match s' = done_on_match s \<and> totalcc s' = totalcc s"

text \<open>A matcher makes progress when each match it reports lies within the bytes it was
  given and, unless it starts at their end, ends after their first byte.\<close>

definition matcher_advances :: "config \<Rightarrow> bool" where
  "matcher_advances cfg \<longleftrightarrow>
     (\<forall>r off sz. execute cfg r = Some (off, sz) \<longrightarrow>
        off + sz \<le> length r \<and> (off < length r \<longrightarrow> 0 < off + sz))"

text \<open>A matcher in the style of grep's own: it returns the first line of the region
  whose text (without the end-of-line byte) satisfies \<open>P\<close>, as the offset of the line and
  its length with the end-of-line byte.\<close>

function line_exec :: "char \<Rightarrow> (string \<Rightarrow> bool) \<Rightarrow> string \<Rightarrow> (nat \<times> nat) option" where
  "line_exec eol P r =
     (if r = [] then None
      else
        let l = takeWhile (\<lambda>c. c \<noteq> eol) r; n = min (length l + 1) (length r)
        in if P l then Some (0, n)
           else map_option (\<lambda>(off, sz). (off + n, sz)) (line_exec eol P (drop n r)))"
  by pat_completeness auto
termination
  by (relation "measure (\<lambda>(eol, P, r). length r)") (auto simp: min_def)

declare line_exec.simps [simp del]

text \<open>The options of a plain \<^verbatim>\<open>grep PATTERN\<close> with newline-terminated lines, the
  matcher selecting the lines that contain the byte \<open>c\<close>.\<close>

definition sample_cfg :: "char \<Rightarrow> config" where
  "sample_cfg c =
     \<lparr>suppress_errors = False, directories = READ_DIRECTORIES,
      binary_files = BINARY_BINARY_FILES, eolbyte = CHR 0x0A, filename_mask = - 1,
      out_quiet_opt = False, done_on_match_opt = False, exit_on_match = False,
      out_invert = False, out_line = False, out_byte = False, out_before = 0, out_after = 0,
      count_matches = False, list_files = 0, no_filenames = False, with_filenames = False,
      max_count = 9223372036854775807,
      execute = line_exec (CHR 0x0A) (\<lambda>l. c \<in> set l)\<rparr>"

text \<open>A matcher that reports an empty match at offset 0 of whatever it is given.\<close>

definition empty_match_cfg :: config where
  "empty_match_cfg = (sample_cfg CHR ''b'')\<lparr>out_invert := True, execute := (\<lambda>r. Some (0, 0))\<rparr>"

text \<open>A regular file with the given contents, and a path that does not exist
  (\<^verbatim>\<open>ENOENT\<close> is 2, \<^verbatim>\<open>EBADF\<close> is 9).\<close>

definition regular_file :: "string \<Rightarrow> fileinfo" where
  "regular_file d =
     \<lparr>f_open_errno = 0, f_stat_errno = 0, f_fstat_errno = 0,
      f_stat = \<lparr>st_mode = S_IFREG, st_ino = 1, st_dev = 1, st_size = int (length d)\<rparr>,
      f_lseek_errno = 0, f_data = d, f_read_errno = 0, f_close_errno = 0,
      f_savedir = None, f_savedir_errno = 20\<rparr>"

definition missing_file :: fileinfo where
  "missing_file =
     \<lparr>f_open_errno = 2, f_stat_errno = 2, f_fstat_errno = 9,
      f_stat = \<lparr>st_mode = S_IFOTHER, st_ino = 0, st_dev = 0, st_size = 0\<rparr>,
      f_lseek_errno = 9, f_data = [], f_read_errno = 9, f_close_errno = 9,
      f_savedir = None, f_savedir_errno = 2\<rparr>"

text \<open>An environment with 4096-byte pages where allocation succeeds and the output
  stream works; \<open>files\<close> answers for the paths and \<open>sin\<close> for standard input.\<close>

definition sample_env :: "(string \<Rightarrow> fileinfo) \<Rightarrow> fileinfo \<Rightarrow> env" where
  "sample_env files sin =
     \<lparr>fs = files, stdin_file = sin, getpagesize = 4096, alloc = (\<lambda>n. 65536),
      stdout_ferror = False, stdout_fclose_eof = False, stdout_errno = 28\<rparr>"

text \<open>The three lines \<^verbatim>\<open>a\<close>, \<^verbatim>\<open>bb\<close>, \<^verbatim>\<open>ccc\<close>, and a state that holds them in the
  buffer with nothing printed yet.\<close>

definition sample_text :: string where
  "sample_text = ''a'' @ [CHR 0x0A] @ ''bb'' @ [CHR 0x0A] @ ''ccc'' @ [CHR 0x0A]"

definition sample_state :: "config \<Rightarrow> string \<Rightarrow> gstate" where
  "sample_state cfg d = (init_state cfg)\<lparr>buf := d, outleft := max_count cfg\<rparr>"

text \<open>A matcher that reports the empty match at the end of whatever it is given.\<close>

definition end_match_cfg :: config where
  "end_match_cfg = (sample_cfg CHR ''b'')\<lparr>execute := (\<lambda>r. Some (length r, 0))\<rparr>"

text \<open>For stating what a call prints: \<open>prepend_out x\<close> puts \<open>x\<close> in front of the
  output written so far, \<open>omap g\<close> applies \<open>g\<close> to the state of an outcome.\<close>

definition prepend_out :: "string \<Rightarrow> gstate \<Rightarrow> gstate" where
  "prepend_out x s = s\<lparr>stdout := x @ stdout s\<rparr>"

definition omap :: "(gstate \<Rightarrow> gstate) \<Rightarrow> 'a outcome \<Rightarrow> 'a outcome" where
  "omap g m = (case m of Return a s \<Rightarrow> Return a (g s) | Exit k s \<Rightarrow> Exit k (g s)
               | Undefined \<Rightarrow> Undefined)"

text \<open>The output group of a call of \<^verbatim>\<open>prtext\<close>: the lines of leading context from \<open>p\<close>,
  then the matched lines. \<open>group_start\<close> is the \<open>p\<close> that \<^verbatim>\<open>prtext\<close> computes, and
  \<open>separator_due\<close> the condition of the claim: context is enabled, \<^verbatim>\<open>prtext\<close> has been
  called before, and the group does not start where the last output ended.\<close>

definition prtext_group ::
  "config \<Rightarrow> env \<Rightarrow> nat \<Rightarrow> nat \<Rightarrow> bool \<Rightarrow> nat \<Rightarrow> gstate \<Rightarrow> int option outcome" where
  "prtext_group cfg e beg lim nlinesp p s =
     obind (prcontext cfg e p beg s) (\<lambda>q s1. prtext_matched cfg e beg lim nlinesp q s1)"

definition group_start :: "config \<Rightarrow> nat \<Rightarrow> gstate \<Rightarrow> nat" where
  "group_start cfg beg s =
     leading_context (buf s) (eolbyte cfg) (case lastout s of Some lo \<Rightarrow> lo | None \<Rightarrow> 0)
       (out_before cfg) beg"

definition separator_due :: "config \<Rightarrow> nat \<Rightarrow> gstate \<Rightarrow> bool" where
  "separator_due cfg p s \<longleftrightarrow>
     (out_before cfg \<noteq> 0 \<or> out_after cfg \<noteq> 0) \<and> used s \<and> Some p \<noteq> lastout s"

text \<open>The options \<^verbatim>\<open>-z -A 1\<close>: lines end in a NUL byte, one line of trailing context.
  The state holds the two lines \<^verbatim>\<open>a\<close> and \<^verbatim>\<open>bb\<close> in the buffer, a call of
  \<^verbatim>\<open>prtext\<close> has been made before, and nothing of this buffer is printed yet.\<close>

definition null_data_cfg :: config where
  "null_data_cfg =
     (sample_cfg CHR ''b'')\<lparr>eolbyte := CHR 0x00, out_after := 1,
        execute := line_exec (CHR 0x00) (\<lambda>l. CHR ''b'' \<in> set l)\<rparr>"

definition null_data_state :: gstate where
  "null_data_state =
     (sample_state null_data_cfg (''a'' @ [CHR 0x00] @ ''bb'' @ [CHR 0x00]))\<lparr>used := True\<rparr>"

text \<open>The results of \<^verbatim>\<open>grepfile\<close> and \<^verbatim>\<open>grepdir\<close> (a status) and of \<^verbatim>\<open>grep\<close> (a count, or
  the status of a directory less 2), and the ways the process ends inside them:
  \<^verbatim>\<open>exit (0)\<close> of \<^verbatim>\<open>grepbuf\<close>, \<^verbatim>\<open>exit (2)\<close> of \<^verbatim>\<open>fatal\<close>, \<^verbatim>\<open>abort\<close>.\<close>

definition exit_code :: "config \<Rightarrow> int \<Rightarrow> bool" where
  "exit_code cfg k = ((k = 0 \<and> exit_on_match cfg) \<or> k = 2 \<or> k = 134)"

definition status_result :: "config \<Rightarrow> int outcome \<Rightarrow> bool" where
  "status_result cfg r =
     (case r of Return st s \<Rightarrow> st = 0 \<or> st = 1 | Exit k s \<Rightarrow> exit_code cfg k
      | Undefined \<Rightarrow> True)"

definition count_result :: "config \<Rightarrow> int outcome \<Rightarrow> bool" where
  "count_result cfg r =
     (case r of Return c s \<Rightarrow> - 2 \<le> c | Exit k s \<Rightarrow> exit_code cfg k | Undefined \<Rightarrow> True)"

text \<open>A file is known by its device and inode. \<open>known_ids\<close> are the identities the file
  system answers with, \<open>unvisited\<close> those that are not in a chain of ancestors.\<close>

definition file_id :: "stat \<Rightarrow> nat \<times> nat" where
  "file_id st = (st_dev st, st_ino st)"

definition known_ids :: "env \<Rightarrow> (nat \<times> nat) set" where
  "known_ids e = range (\<lambda>p. file_id (f_stat (fs e p)))"

definition unvisited :: "env \<Rightarrow> stat list \<Rightarrow> (nat \<times> nat) set" where
  "unvisited e anc = known_ids e - file_id ` set anc"

text \<open>The number of end-of-line bytes of the buffer from \<open>p\<close> up to \<open>lim\<close>: the number
  of lines that end in the region.\<close>

definition region_lines :: "config \<Rightarrow> nat \<Rightarrow> nat \<Rightarrow> gstate \<Rightarrow> nat" where
  "region_lines cfg p lim s = count_list (take (lim - p) (drop p (buf s))) (eolbyte cfg)"

text \<open>The options \<^verbatim>\<open>-v\<close> with the matcher that reports the empty match at the end of
  whatever it is given.\<close>

definition inverted_end_match_cfg :: config where
  "inverted_end_match_cfg = end_match_cfg\<lparr>out_invert := True\<rparr>"

text \<open>A file system where the path \<^verbatim>\<open>x\<close> is a regular file that holds the three sample
  lines and no other path exists; standard input is the same file. \<open>quiet_cfg\<close> are
  the options \<^verbatim>\<open>-q\<close> of the same search.\<close>

definition sample_files :: "string \<Rightarrow> fileinfo" where
  "sample_files p = (if p = ''x'' then regular_file sample_text else missing_file)"

definition sample_run_env :: env where
  "sample_run_env = sample_env sample_files (regular_file sample_text)"

definition quiet_cfg :: config where
  "quiet_cfg = (sample_cfg CHR ''b'')\<lparr>out_quiet_opt := True, done_on_match_opt := True,
                 exit_on_match := True\<rparr>"





text \<open>The sample file system with an output stream that fails when it is closed
  (\<^verbatim>\<open>ENOSPC\<close> is 28).\<close>

definition close_failing_env :: env where
  "close_failing_env = sample_run_env\<lparr>stdout_fclose_eof := True\<rparr>"

text \<open>The operands that \<^verbatim>\<open>main\<close> searches (standard input when none is given), and the
  statuses that \<^verbatim>\<open>grepfile\<close> returns for a list of operands searched in turn, up to the
  first call that does not return.\<close>

definition operands :: "string list \<Rightarrow> string list" where
  "operands files = (if files = [] then [''-''] else files)"

fun operand_statuses :: "nat \<Rightarrow> config \<Rightarrow> env \<Rightarrow> string list \<Rightarrow> gstate \<Rightarrow> int list" where
  "operand_statuses n cfg e [] s = []"
| "operand_statuses n cfg e (file # files) s =
     (case grepfile n cfg e (if file = ''-'' then None else Some file) [] s of
        Some (Return r s1) \<Rightarrow> r # operand_statuses n cfg e files s1
      | _ \<Rightarrow> [])"


text \<open>A directory \<^verbatim>\<open>d\<close> whose one entry \<^verbatim>\<open>d\<close> is the directory itself: every path of the
  file system answers as this directory. The options are \<^verbatim>\<open>-r\<close> of the sample search.\<close>

definition loop_dir :: fileinfo where
  "loop_dir =
     \<lparr>f_open_errno = 0, f_stat_errno = 0, f_fstat_errno = 0,
      f_stat = \<lparr>st_mode = S_IFDIR, st_ino = 7, st_dev = 1, st_size = 0\<rparr>,
      f_lseek_errno = 0, f_data = [], f_read_errno = 21, f_close_errno = 0,
      f_savedir = Some [''d''], f_savedir_errno = 0\<rparr>"

definition loop_env :: env where
  "loop_env = sample_env (\<lambda>p. loop_dir) (regular_file sample_text)"

definition recursive_cfg :: config where
  "recursive_cfg = (sample_cfg CHR ''b'')\<lparr>directories := RECURSE_DIRECTORIES\<rparr>"

section \<open>Properties of the scanner\<close>

lemma scan_frame_refl [simp]: "scan_frame s s"
  by (simp add: scan_frame_def)

lemma scan_frame_trans: "scan_frame s s1 \<Longrightarrow> scan_frame s1 s2 \<Longrightarrow> scan_frame s s2"
  by (simp add: scan_frame_def)

lemma nlscan_frame:
  "nlscan cfg lim s = Return u s' \<Longrightarrow> scan_frame s s' \<and> pending s' = pending s \<and> outleft s' = outleft s \<and> lastout s' = lastout s \<and> used s' = used s"
  by (auto simp: nlscan_def scan_frame_def split: option.splits)

lemma nlscan_no_exit: "nlscan cfg lim s \<noteq> Exit k s'"
  by (auto simp: nlscan_def split: option.splits)

lemma prline_frame:
  "prline cfg e beg lim sep s = Return u s' \<Longrightarrow>
     scan_frame s s' \<and> pending s' = pending s \<and> outleft s' = outleft s \<and> used s' = used s \<and> lastout s' = Some lim"
  by (auto simp: prline_def obind_def nlscan_def print_offset_sep_def fwrite_def error_def
        Let_def scan_frame_def split: if_splits option.splits outcome.splits)

lemma prline_no_exit: "prline cfg e beg lim sep s \<noteq> Exit k s'"
  by (auto simp: prline_def obind_def nlscan_def print_offset_sep_def fwrite_def error_def
        Let_def split: if_splits option.splits outcome.splits)




lemma prpending_loop_frame:
  "prpending_loop cfg e lim s = Return u s' \<Longrightarrow>
     scan_frame s s' \<and> outleft s' = outleft s \<and> used s' = used s"
proof (induction cfg e lim s rule: prpending_loop.induct)
  case (1 cfg e lim s)
  note IH = "1.IH"
  from "1.prems" show ?case
    apply (subst (asm) prpending_loop.simps)
    apply (clarsimp simp: Let_def split: option.splits if_splits outcome.splits)
     apply (frule prline_frame)
    using IH(1) apply (fastforce simp: scan_frame_def)
    using IH(2) apply (fastforce simp: scan_frame_def)
    done
qed

lemma prpending_loop_no_exit: "prpending_loop cfg e lim s \<noteq> Exit k s'"
proof (induction cfg e lim s rule: prpending_loop.induct)
  case (1 cfg e lim s)
  note IH = "1.IH"
  show ?case
    apply (subst prpending_loop.simps)
    apply (clarsimp simp: Let_def prline_no_exit split: option.splits if_splits outcome.splits)
    using IH apply fastforce
    done
qed

lemma prpending_frame:
  "prpending cfg e lim s = Return u s' \<Longrightarrow>
     scan_frame s s' \<and> outleft s' = outleft s \<and> used s' = used s"
  by (auto simp: prpending_def scan_frame_def dest!: prpending_loop_frame split: if_splits)

lemma prpending_no_exit: "prpending cfg e lim s \<noteq> Exit k s'"
  by (simp add: prpending_def prpending_loop_no_exit)

lemma prcontext_frame:
  "prcontext cfg e p beg s = Return q s' \<Longrightarrow>
     scan_frame s s' \<and> outleft s' = outleft s \<and> used s' = used s \<and> pending s' = pending s"
proof (induction cfg e p beg s rule: prcontext.induct)
  case (1 cfg e p beg s)
  note IH = "1.IH"
  from "1.prems" show ?case
    apply (subst (asm) prcontext.simps)
    apply (clarsimp simp: Let_def split: option.splits if_splits outcome.splits)
    apply (frule prline_frame)
    using IH apply (fastforce simp: scan_frame_def)
    done
qed

lemma prcontext_no_exit: "prcontext cfg e p beg s \<noteq> Exit k s'"
proof (induction cfg e p beg s rule: prcontext.induct)
  case (1 cfg e p beg s)
  note IH = "1.IH"
  show ?case
    apply (subst prcontext.simps)
    apply (clarsimp simp: Let_def prline_no_exit split: option.splits if_splits outcome.splits)
    using IH apply fastforce
    done
qed

lemma prlines_frame:
  "prlines cfg e p lim n s = Return (q, n') s' \<Longrightarrow>
     scan_frame s s' \<and> outleft s' = outleft s \<and> used s' = used s \<and> pending s' = pending s
     \<and> n \<le> n'"
proof (induction cfg e p lim n s arbitrary: q n' rule: prlines.induct)
  case (1 cfg e p lim n s)
  note IH = "1.IH"
  from "1.prems" show ?case
    apply (subst (asm) prlines.simps)
    apply (clarsimp simp: Let_def split: option.splits if_splits outcome.splits)
     apply (frule prline_frame)
    using IH apply (fastforce simp: scan_frame_def)
    using IH apply (fastforce simp: scan_frame_def)
    done
qed

lemma prlines_no_exit: "prlines cfg e p lim n s \<noteq> Exit k s'"
proof (induction cfg e p lim n s rule: prlines.induct)
  case (1 cfg e p lim n s)
  note IH = "1.IH"
  show ?case
    apply (subst prlines.simps)
    apply (clarsimp simp: Let_def prline_no_exit split: option.splits if_splits outcome.splits)
    using IH apply fastforce
    done
qed


lemma prtext_leading_frame:
  "prtext_leading cfg e beg s = Return p s' \<Longrightarrow>
     scan_frame s s' \<and> outleft s' = outleft s \<and> pending s' = pending s"
  by (auto simp: prtext_leading_def Let_def puts_def fwrite_def scan_frame_def
        split: if_splits dest!: prcontext_frame)

lemma prtext_leading_no_exit: "prtext_leading cfg e beg s \<noteq> Exit k s'"
  by (simp add: prtext_leading_def Let_def prcontext_no_exit)

lemma prtext_matched_frame:
  "prtext_matched cfg e beg lim nlinesp p s = Return r s' \<Longrightarrow>
     scan_frame s s' \<and> outleft s' = outleft s
     \<and> (if nlinesp then \<exists>n. r = Some n \<and> 0 \<le> n else r = None)"
  apply (cases nlinesp)
   apply (clarsimp simp: prtext_matched_def obind_Return)
   apply (drule prlines_frame)
   apply (simp add: scan_frame_def)
  apply (clarsimp simp: prtext_matched_def obind_Return split: if_splits)
  apply (drule prline_frame)
  apply (simp add: scan_frame_def)
  done


lemma prtext_matched_no_exit: "prtext_matched cfg e beg lim nlinesp p s \<noteq> Exit k s'"
  by (cases nlinesp)
     (auto simp: prtext_matched_def obind_Exit prlines_no_exit prline_no_exit)

lemma prtext_frame:
  assumes "prtext cfg e beg lim nlinesp s = Return r s'"
  shows "scan_frame s s' \<and> outleft s' = outleft s
     \<and> (if nlinesp then \<exists>n. r = Some n \<and> 0 \<le> n else r = None)"
proof -
  from assms have le: "\<not> length (buf s) < beg"
    by (simp add: prtext_def split: if_splits)
  from assms le obtain u s1 p s2 s3 where
    a: "(if out_quiet s = 0 \<and> 0 < pending s then prpending cfg e beg s else Return () s)
          = Return u s1"
    and b: "(if out_quiet s1 = 0 then prtext_leading cfg e beg s1 else Return beg s1)
          = Return p s2"
    and c: "prtext_matched cfg e beg lim nlinesp p s2 = Return r s3"
    and d: "s' = s3\<lparr>pending := (if out_quiet s3 \<noteq> 0 then 0 else out_after cfg),
                      used := True\<rparr>"
    by (auto simp: prtext_def obind_Return)
  from a have fa: "scan_frame s s1 \<and> outleft s1 = outleft s"
    by (cases "out_quiet s = 0 \<and> 0 < pending s") (auto dest: prpending_frame)
  from b have fb: "scan_frame s1 s2 \<and> outleft s2 = outleft s1"
    by (cases "out_quiet s1 = 0") (auto dest: prtext_leading_frame)
  note fc = prtext_matched_frame [OF c]
  from d have fd: "scan_frame s3 s' \<and> outleft s' = outleft s3"
    by (simp add: scan_frame_def)
  have "scan_frame s s'"
    using fa fb fc fd by (blast intro: scan_frame_trans)
  moreover have "outleft s' = outleft s"
    using fa fb fc fd by simp
  ultimately show ?thesis using fc by simp
qed

lemma prtext_no_exit: "prtext cfg e beg lim nlinesp s \<noteq> Exit k s'"
  by (auto simp: prtext_def obind_Exit prpending_no_exit prtext_leading_no_exit
        prtext_matched_no_exit split: if_splits)

lemma grepbuf_step_Next:
  assumes "grepbuf_step cfg e lim p n s = Next p' n' s'"
  shows "\<exists>off sz. p \<le> lim \<and> execute cfg (take (lim - p) (drop p (buf s))) = Some (off, sz)
           \<and> p + off \<noteq> lim \<and> p' = p + off + sz \<and> scan_frame s s' \<and> n \<le> n'"
  using assms
  apply (clarsimp simp: grepbuf_step_def Let_def split: if_splits option.splits)
   apply (clarsimp simp: Let_def split: if_splits outcome.splits)
   apply (frule prtext_frame, clarsimp simp: scan_frame_def)
  apply (clarsimp simp: Let_def split: if_splits outcome.splits)
  apply (frule prtext_frame, clarsimp simp: scan_frame_def)
  done


lemma grepbuf_step_advances:
  assumes adv: "matcher_advances cfg" and le: "lim \<le> length (buf s)"
    and st: "grepbuf_step cfg e lim p n s = Next p' n' s'"
  shows "p < p' \<and> p' \<le> lim \<and> scan_frame s s'"
proof -
  from grepbuf_step_Next [OF st] obtain off sz where
    p: "p \<le> lim" and ex: "execute cfg (take (lim - p) (drop p (buf s))) = Some (off, sz)"
    and ne: "p + off \<noteq> lim" and p': "p' = p + off + sz" and fr: "scan_frame s s'"
    by blast
  have len: "length (take (lim - p) (drop p (buf s))) = lim - p"
    using p le by simp
  from adv ex len have a: "off + sz \<le> lim - p" and b: "off < lim - p \<longrightarrow> 0 < off + sz"
    unfolding matcher_advances_def by (metis)+
  from a ne p have "off < lim - p" by arith
  with b have "0 < off + sz" by simp
  with a p p' fr show ?thesis by simp
qed

lemma grepbuf_loop_terminates:
  assumes adv: "matcher_advances cfg"
  shows "lim \<le> length (buf s) \<Longrightarrow> \<exists>r. grepbuf_loop cfg e lim p n s = Some r"
proof (induction "lim - p" arbitrary: p n s rule: less_induct)
  case less
  show ?case
  proof (cases "grepbuf_step cfg e lim p n s")
    case (Next p' n' s')
    from grepbuf_step_advances [OF adv less.prems Next]
    have "p < p'" "p' \<le> lim" "buf s' = buf s"
      by (simp_all add: scan_frame_def)
    with less.hyps [of p' s' n'] less.prems
    have "\<exists>r. grepbuf_loop cfg e lim p' n' s' = Some r" by simp
    then show ?thesis
      by (subst grepbuf_loop.simps) (simp add: Next)
  next
    case (Leave n' s')
    then show ?thesis
      by (subst grepbuf_loop.simps) simp
  next
    case (Stop r)
    then show ?thesis
      by (subst grepbuf_loop.simps) simp
  qed
qed

lemma grepbuf_loop_progress:
  assumes "grepbuf_loop cfg e lim p n s = Some r"
  shows "grepbuf_step cfg e lim p n s \<noteq> Next p n s"
proof (rule grepbuf_loop.raw_induct
    [where P = "\<lambda>cfg e lim p n s r. grepbuf_step cfg e lim p n s \<noteq> Next p n s", OF _ assms],
    goal_cases)
  case (1 f cfg e lim p n s r)
  show ?case
  proof
    assume st: "grepbuf_step cfg e lim p n s = Next p n s"
    with 1(2) have "f cfg e lim p n s = Some r" by simp
    from 1(1) [OF this] st show False by simp
  qed
qed

lemma grepbuf_loop_stuck:
  assumes "grepbuf_step cfg e lim p n s = Next p n s"
  shows "grepbuf_loop cfg e lim p n s = None"
proof (cases "grepbuf_loop cfg e lim p n s")
  case None
  then show ?thesis .
next
  case (Some r)
  from grepbuf_loop_progress [OF Some] assms show ?thesis by simp
qed

lemma line_exec_Some:
  "line_exec eol P r = Some (off, sz) \<Longrightarrow> off + sz \<le> length r \<and> 0 < sz"
proof (induction eol P r arbitrary: off sz rule: line_exec.induct)
  case (1 eol P r)
  define l where "l = takeWhile (\<lambda>c. c \<noteq> eol) r"
  define n where "n = min (length l + 1) (length r)"
  from "1.prems" have ne: "r \<noteq> []"
    by (subst (asm) line_exec.simps) (auto split: if_splits)
  then have n: "0 < n" "n \<le> length r"
    by (auto simp: n_def min_def)
  show ?case
  proof (cases "P l")
    case True
    with "1.prems" ne have "off = 0 \<and> sz = n"
      by (subst (asm) line_exec.simps) (simp add: Let_def l_def n_def)
    with n show ?thesis by simp
  next
    case False
    with "1.prems" ne obtain off' where
      rec: "line_exec eol P (drop n r) = Some (off', sz)" and off: "off = off' + n"
      by (subst (asm) line_exec.simps) (auto simp: Let_def l_def n_def)
    have "off' + sz \<le> length (drop n r) \<and> 0 < sz"
      using "1.IH" [of l n off' sz] ne False rec by (simp add: l_def n_def)
    with n off show ?thesis by auto
  qed
qed

lemma sample_cfg_advances: "matcher_advances (sample_cfg c)"
  by (auto simp: matcher_advances_def sample_cfg_def dest!: line_exec_Some)

lemma omap_simps [simp]:
  "omap g (Return a s) = Return a (g s)"
  "omap g (Exit k s) = Exit k (g s)"
  "omap g Undefined = Undefined"
  by (simp_all add: omap_def)

lemma prepend_out_fields [simp]:
  "buf (prepend_out x s) = buf s" "lastnl (prepend_out x s) = lastnl s"
  "totalnl (prepend_out x s) = totalnl s" "out_file (prepend_out x s) = out_file s"
  "filename (prepend_out x s) = filename s" "totalcc (prepend_out x s) = totalcc s"
  "outleft (prepend_out x s) = outleft s" "out_quiet (prepend_out x s) = out_quiet s"
  "bufoffset (prepend_out x s) = bufoffset s" "stdout (prepend_out x s) = x @ stdout s"
  "lastout (prepend_out x s) = lastout s" "pending (prepend_out x s) = pending s"
  by (simp_all add: prepend_out_def)

lemma nlscan_prepend:
  "nlscan cfg lim (prepend_out x s) = omap (prepend_out x) (nlscan cfg lim s)"
  by (simp add: nlscan_def prepend_out_def split: option.split)

lemma prline_prepend:
  "prline cfg e beg lim sep (prepend_out x s) = omap (prepend_out x) (prline cfg e beg lim sep s)"
  by (simp add: prline_def obind_def nlscan_def Let_def print_offset_sep_def fwrite_def
        error_def prepend_out_def split: option.split)

lemma prcontext_prepend:
  "prcontext cfg e p beg (prepend_out x s) = omap (prepend_out x) (prcontext cfg e p beg s)"
proof (induction cfg e p beg s rule: prcontext.induct)
  case (1 cfg e p beg s)
  note IH = "1.IH"
  note unf = prcontext.simps [of cfg e p beg s] prcontext.simps [of cfg e p beg "prepend_out x s"]
  show ?case
  proof (cases "p < beg")
    case False
    then show ?thesis by (simp add: unf)
  next
    case True
    show ?thesis
    proof (cases "memchr (buf s) p (eolbyte cfg) (beg - p)")
      case None
      with True show ?thesis by (simp add: unf)
    next
      case (Some nl)
      show ?thesis
      proof (cases "prline cfg e p (nl + 1) CHR ''-'' s")
        case (Return u s1)
        from IH [OF True Some Return] True Some Return show ?thesis
          by (simp add: unf prline_prepend)
      qed (use True Some in \<open>simp_all add: unf prline_prepend\<close>)
    qed
  qed
qed

lemma prlines_prepend:
  "prlines cfg e p lim n (prepend_out x s) = omap (prepend_out x) (prlines cfg e p lim n s)"
proof (induction cfg e p lim n s rule: prlines.induct)
  case (1 cfg e p lim n s)
  note IH = "1.IH"
  note unf = prlines.simps [of cfg e p lim n s] prlines.simps [of cfg e p lim n "prepend_out x s"]
  consider "\<not> p < lim" | "\<not> n < outleft s" | "p < lim" "n < outleft s" by blast
  then show ?case
  proof cases
    case 1
    then show ?thesis by (simp add: unf)
  next
    case 2
    then show ?thesis by (simp add: unf)
  next
    case 3
    then have c: "p < lim \<and> n < outleft s" by simp
    show ?thesis
    proof (cases "memchr (buf s) p (eolbyte cfg) (lim - p)")
      case None
      with 3 show ?thesis by (simp add: unf)
    next
      case (Some nl)
      show ?thesis
      proof (cases "if out_quiet s = 0 then prline cfg e p (nl + 1) CHR '':'' s
                    else Return () s")
        case (Return u s1)
        from IH [OF c Some Return] 3 Some Return show ?thesis
          by (simp add: unf prline_prepend split: if_splits)
      qed (use 3 Some in \<open>simp_all add: unf prline_prepend split: if_splits\<close>)
    qed
  qed
qed

lemma prtext_matched_prepend:
  "prtext_matched cfg e beg lim nlinesp p (prepend_out x s)
     = omap (prepend_out x) (prtext_matched cfg e beg lim nlinesp p s)"
proof (cases nlinesp)
  case True
  show ?thesis
  proof (cases "prlines cfg e p lim 0 s")
    case (Return a s1)
    obtain q n where a: "a = (q, n)" by (cases a)
    from True Return a show ?thesis
      by (simp add: prtext_matched_def prlines_prepend) (simp add: prepend_out_def)
  qed (use True in \<open>simp_all add: prtext_matched_def prlines_prepend\<close>)
next
  case False
  then show ?thesis
    by (cases "prline cfg e beg lim CHR '':'' s")
       (simp_all add: prtext_matched_def prline_prepend)
qed

lemma prtext_group_prepend:
  "prtext_group cfg e beg lim nlinesp p (prepend_out x s)
     = omap (prepend_out x) (prtext_group cfg e beg lim nlinesp p s)"
  by (cases "prcontext cfg e p beg s")
     (simp_all add: prtext_group_def prcontext_prepend prtext_matched_prepend)


lemma prepend_out_stdout: "s\<lparr>stdout := stdout s @ x\<rparr> = prepend_out (stdout s @ x) (s\<lparr>stdout := []\<rparr>)"
  by (simp add: prepend_out_def)

lemma prlines_quiet:
  "out_quiet s \<noteq> 0 \<Longrightarrow> prlines cfg e p lim n s = Return a s' \<Longrightarrow> s' = s"
proof (induction cfg e p lim n s rule: prlines.induct)
  case (1 cfg e p lim n s)
  note IH = "1.IH"
  from "1.prems" show ?case
    apply (subst (asm) prlines.simps)
    apply (clarsimp split: if_splits option.splits)
    using IH apply fastforce
    done
qed

lemma prtext_null_data_run:
  "prtext null_data_cfg (sample_env (\<lambda>p. missing_file) missing_file) 2 5 False null_data_state
     = Return None
         (null_data_state\<lparr>stdout := ''--'' @ [CHR 0x0A] @ ''bb'' @ [CHR 0x00],
            lastout := Some 5, pending := 1\<rparr>)"
  by code_simp

lemma grepbuf_tail_Return:
  "grepbuf_tail cfg e lim p n s = Return n' s' \<Longrightarrow> n \<le> n' \<and> scan_frame s s'"
  apply (clarsimp simp: grepbuf_tail_def obind_Return Let_def split: if_splits)
  apply (frule prtext_frame)
  apply (clarsimp simp: scan_frame_def)
  done

lemma grepbuf_tail_no_exit: "grepbuf_tail cfg e lim p n s \<noteq> Exit k s'"
  by (auto simp: grepbuf_tail_def obind_Exit Let_def prtext_no_exit)

lemma grepbuf_step_Leave:
  "grepbuf_step cfg e lim p n s = Leave n' s' \<Longrightarrow> n' = n \<and> s' = s"
  apply (clarsimp simp: grepbuf_step_def Let_def split: if_splits option.splits)
   apply (clarsimp simp: Let_def split: if_splits outcome.splits)
  apply (clarsimp simp: Let_def split: if_splits outcome.splits)
  done

lemma grepbuf_step_Stop_Return:
  "grepbuf_step cfg e lim p n s = Stop (Return n' s') \<Longrightarrow> n \<le> n' \<and> scan_frame s s'"
  apply (clarsimp simp: grepbuf_step_def Let_def split: if_splits option.splits)
   apply (clarsimp simp: Let_def split: if_splits outcome.splits)
   apply (frule prtext_frame, clarsimp simp: scan_frame_def)
  apply (clarsimp simp: Let_def split: if_splits outcome.splits)
  apply (frule prtext_frame, clarsimp simp: scan_frame_def)
  done

lemma grepbuf_step_Stop_Exit:
  "grepbuf_step cfg e lim p n s = Stop (Exit k s') \<Longrightarrow>
     k = 0 \<and> exit_on_match cfg \<and> scan_frame s s'"
  apply (clarsimp simp: grepbuf_step_def Let_def split: if_splits option.splits)
   apply (clarsimp simp: Let_def prtext_no_exit split: if_splits outcome.splits)
   apply (frule prtext_frame, clarsimp simp: scan_frame_def)
  apply (clarsimp simp: Let_def prtext_no_exit split: if_splits outcome.splits)
  done

lemma grepbuf_loop_Return:
  assumes "grepbuf_loop cfg e lim p n s = Some r"
  shows "(\<forall>n' s'. r = Return n' s' \<longrightarrow> n \<le> n' \<and> scan_frame s s')
       \<and> (\<forall>k s'. r = Exit k s' \<longrightarrow> k = 0 \<and> exit_on_match cfg \<and> scan_frame s s')"
proof (rule grepbuf_loop.raw_induct
    [where P = "\<lambda>cfg e lim p n s r.
        (\<forall>n' s'. r = Return n' s' \<longrightarrow> n \<le> n' \<and> scan_frame s s')
        \<and> (\<forall>k s'. r = Exit k s' \<longrightarrow> k = 0 \<and> exit_on_match cfg \<and> scan_frame s s')",
      OF _ assms], goal_cases)
  case (1 f cfg e lim p n s r)
  show ?case
  proof (cases "grepbuf_step cfg e lim p n s")
    case (Next p1 n1 s1)
    from grepbuf_step_Next [OF Next] have a: "n \<le> n1" "scan_frame s s1" by auto
    from 1(2) Next have "f cfg e lim p1 n1 s1 = Some r" by simp
    from 1(1) [OF this] a show ?thesis
      by (auto intro: scan_frame_trans)
  next
    case (Leave n1 s1)
    from grepbuf_step_Leave [OF Leave] have b: "n1 = n" "s1 = s" by auto
    from 1(2) Leave b have r: "r = grepbuf_tail cfg e lim p n s" by simp
    show ?thesis
      using grepbuf_tail_Return [of cfg e lim p n s] grepbuf_tail_no_exit [of cfg e lim p n s]
      by (auto simp: r)
  next
    case (Stop r1)
    with 1(2) have r: "r = r1" by simp
    show ?thesis
      using grepbuf_step_Stop_Return [of cfg e lim p n s] grepbuf_step_Stop_Exit [of cfg e lim p n s]
        Stop by (auto simp: r)
  qed
qed

lemma grepbuf_Some:
  assumes "grepbuf cfg e beg lim s = Some r"
  shows "(\<forall>n' s'. r = Return n' s' \<longrightarrow> 0 \<le> n' \<and> scan_frame s s')
       \<and> (\<forall>k s'. r = Exit k s' \<longrightarrow> k = 0 \<and> exit_on_match cfg \<and> scan_frame s s')"
  using assms grepbuf_loop_Return [of cfg e lim beg 0 s r]
  by (auto simp: grepbuf_def split: if_splits)

lemma grepbuf_total:
  "matcher_advances cfg \<Longrightarrow> \<exists>r. grepbuf cfg e beg lim s = Some r"
  using grepbuf_loop_terminates [of cfg lim s e beg 0]
  by (simp add: grepbuf_def)


lemma grep_search_Some:
  assumes "grep_search cfg e beg lim n s = Some r"
  shows "(\<forall>n' fin s'. r = Return (n', fin) s' \<longrightarrow> n \<le> n')
       \<and> (\<forall>k s'. r = Exit k s' \<longrightarrow> k = 0 \<and> exit_on_match cfg)"
proof -
  define g where "g = (if outleft s \<noteq> 0 then grepbuf cfg e beg lim s else Some (Return 0 s))"
  from assms obtain r0 where g: "g = Some r0"
    and r: "r = obind r0 (\<lambda>n0 s1.
          obind (if pending s1 \<noteq> 0 then prpending cfg e lim s1 else Return () s1)
            (\<lambda>_ s2.
               Return (n + n0,
                       (outleft s2 = 0 \<and> pending s2 = 0)
                       \<or> (n + n0 \<noteq> 0 \<and> done_on_match s2 \<noteq> 0 \<and> \<not> out_invert cfg))
                 s2))"
    by (auto simp: grep_search_def g_def [symmetric] split: option.splits)
  have r0: "(\<forall>n' s'. r0 = Return n' s' \<longrightarrow> 0 \<le> n')
       \<and> (\<forall>k s'. r0 = Exit k s' \<longrightarrow> k = 0 \<and> exit_on_match cfg)"
    using g grepbuf_Some [of cfg e beg lim s r0]
    by (auto simp: g_def split: if_splits)
  show ?thesis
  proof (cases r0)
    case (Return n0 s1)
    with r0 have "0 \<le> n0" by simp
    with r Return show ?thesis
      by (cases "pending s1 \<noteq> 0")
         (auto simp: obind_Return obind_Exit prpending_no_exit)
  next
    case (Exit k s1)
    with r r0 show ?thesis by simp
  next
    case Undefined
    with r show ?thesis by simp
  qed
qed

lemma grep_search_total:
  "matcher_advances cfg \<Longrightarrow> \<exists>r. grep_search cfg e beg lim n s = Some r"
  using grepbuf_total [of cfg e beg lim s]
  by (auto simp: grep_search_def)

lemma grep_save_Return:
  "grep_save cfg lim residue n s = Return c s' \<Longrightarrow> \<exists>save. c = Refill save residue n"
  by (auto simp: grep_save_def Let_def obind_Return)

lemma grep_save_no_exit: "grep_save cfg lim residue n s \<noteq> Exit k s'"
  by (auto simp: grep_save_def Let_def obind_Exit nlscan_no_exit)

lemma grep_scan_Some:
  assumes "grep_scan cfg e save residue n s = Some r"
  shows "(\<forall>sv rs n' s'. r = Return (Refill sv rs n') s' \<longrightarrow> n \<le> n')
       \<and> (\<forall>n' s'. r = Return (Finish n') s' \<longrightarrow> n \<le> n')
       \<and> (\<forall>k s'. r = Exit k s' \<longrightarrow> k = 0 \<and> exit_on_match cfg)"
proof -
  define beg where "beg = save - residue"
  define lim where "lim = lim_scan (buf s) (eolbyte cfg) beg (length (buf s))"
  define g where "g = (if beg < lim then grep_search cfg e beg lim n s
            else Some (Return (n, False) s))"
  have un: "grep_scan cfg e save residue n s =
      (case g of None \<Rightarrow> None
       | Some r \<Rightarrow> Some (obind r (\<lambda>(nlines1, fin) s1.
          if fin then Return (Finish nlines1) s1
          else grep_save cfg lim (length (buf s) - lim) nlines1 s1)))"
    unfolding grep_scan_def Let_def g_def beg_def lim_def by (rule refl)
  from assms un obtain r0 where g: "g = Some r0"
    and r: "r = obind r0 (\<lambda>(nlines1, fin) s1.
          if fin then Return (Finish nlines1) s1
          else grep_save cfg lim (length (buf s) - lim) nlines1 s1)"
    by (auto split: option.splits)
  have r0: "(\<forall>n' fin s'. r0 = Return (n', fin) s' \<longrightarrow> n \<le> n')
       \<and> (\<forall>k s'. r0 = Exit k s' \<longrightarrow> k = 0 \<and> exit_on_match cfg)"
    using g grep_search_Some [of cfg e beg lim n s r0]
    by (auto simp: g_def split: if_splits)
  show ?thesis
  proof (cases r0)
    case (Return a s1)
    obtain n1 fin where a: "a = (n1, fin)" by (cases a)
    with Return r0 have "n \<le> n1" by simp
    with r Return a show ?thesis
      by (cases fin) (auto simp: grep_save_no_exit dest: grep_save_Return)
  next
    case (Exit k s1)
    with r r0 show ?thesis by simp
  next
    case Undefined
    with r show ?thesis by simp
  qed
qed

lemma grep_scan_total:
  "matcher_advances cfg \<Longrightarrow> \<exists>r. grep_scan cfg e save residue n s = Some r"
  using grep_search_total [of cfg e "save - residue"
      "lim_scan (buf s) (eolbyte cfg) (save - residue) (length (buf s))" n s]
  by (auto simp: grep_scan_def Let_def)

lemma grep_residue_Some:
  assumes "grep_residue cfg e save residue n s = Some r"
  shows "(\<forall>n' s'. r = Return n' s' \<longrightarrow> n \<le> n')
       \<and> (\<forall>k s'. r = Exit k s' \<longrightarrow> k = 0 \<and> exit_on_match cfg)"
proof (cases "residue = 0")
  case True
  with assms show ?thesis by (auto simp: grep_residue_def)
next
  case False
  define s1 where "s1 = s\<lparr>buf := buf s @ [eolbyte cfg]\<rparr>"
  define g where "g = (if outleft s1 \<noteq> 0 then grepbuf cfg e (save - residue) (length (buf s1)) s1
              else Some (Return 0 s1))"
  have un: "grep_residue cfg e save residue n s =
      (if residue \<noteq> 0 then
         (case g of None \<Rightarrow> None
          | Some r \<Rightarrow> Some (obind r (\<lambda>n0 s2.
            obind (if pending s2 \<noteq> 0 then prpending cfg e (length (buf s2)) s2
                   else Return () s2)
              (\<lambda>_ s3. Return (n + n0) s3))))
       else Some (Return n s))"
    unfolding grep_residue_def Let_def g_def s1_def by (rule refl)
  from assms False un obtain r0 where g: "g = Some r0"
    and r: "r = obind r0 (\<lambda>n0 s2.
            obind (if pending s2 \<noteq> 0 then prpending cfg e (length (buf s2)) s2
                   else Return () s2)
              (\<lambda>_ s3. Return (n + n0) s3))"
    by (auto split: option.splits)
  have r0: "(\<forall>n' s'. r0 = Return n' s' \<longrightarrow> 0 \<le> n')
       \<and> (\<forall>k s'. r0 = Exit k s' \<longrightarrow> k = 0 \<and> exit_on_match cfg)"
    using g grepbuf_Some [of cfg e "save - residue" "length (buf s1)" s1 r0]
    by (auto simp: g_def split: if_splits)
  show ?thesis
  proof (cases r0)
    case (Return n0 s2)
    with r0 have "0 \<le> n0" by simp
    with r Return show ?thesis
      by (cases "pending s2 \<noteq> 0")
         (auto simp: obind_Return obind_Exit prpending_no_exit)
  next
    case (Exit k s2)
    with r r0 show ?thesis by simp
  next
    case Undefined
    with r show ?thesis by simp
  qed
qed

lemma grep_residue_total:
  "matcher_advances cfg \<Longrightarrow> \<exists>r. grep_residue cfg e save residue n s = Some r"
  using grepbuf_total [of cfg e "save - residue" "Suc (length (buf s))"
      "s\<lparr>buf := buf s @ [eolbyte cfg]\<rparr>"]
  by (auto simp: grep_residue_def Let_def)

lemma fillbuf_grow_Exit: "fillbuf_grow e st save s = Exit k s' \<Longrightarrow> k = 2"
  by (auto simp: fillbuf_grow_def Let_def fatal_def split: if_splits option.splits)

lemma fillbuf_Exit: "fillbuf e f st save pos s = Exit k s' \<Longrightarrow> k = 2"
  by (auto simp: fillbuf_def obind_Exit Let_def dest: fillbuf_grow_Exit split: if_splits)

lemma grep_loop_unfold:
  assumes "s = s0\<lparr>lastnl := 0, lastout := (if lastout s0 \<noteq> None then Some 0 else None)\<rparr>"
  shows "grep_loop cfg e f st fl save residue n pos s0 =
     (if length (buf s0) = save then
        (case grep_residue cfg e save residue n s of
           None \<Rightarrow> None
         | Some r \<Rightarrow> Some (obind r (\<lambda>n s1. Return (n, pos) s1)))
      else
        (case grep_scan cfg e save residue n s of
           None \<Rightarrow> None
         | Some Undefined \<Rightarrow> Some Undefined
         | Some (Exit k s1) \<Rightarrow> Some (Exit k s1)
         | Some (Return (Finish n) s1) \<Rightarrow> Some (Return (n, pos) s1)
         | Some (Return (Refill save1 residue1 nlines1) s1) \<Rightarrow>
             (case fillbuf e f st save1 pos s1 of
                Undefined \<Rightarrow> Some Undefined
              | Exit k s2 \<Rightarrow> Some (Exit k s2)
              | Return (cc, pos1) s2 \<Rightarrow>
                  if cc then grep_loop cfg e f st fl save1 residue1 nlines1 pos1 s2
                  else Some (Return (nlines1, pos1)
                         (if \<not> is_EISDIR (errno s2) fl
                          then suppressible_error cfg (filename s2) (errno s2) s2 else s2)))))"
  apply (subst grep_loop.simps)
  unfolding Let_def assms
  apply (rule refl)
  done

lemma grep_loop_Some:
  "grep_loop cfg e f st fl save residue n pos s = Some r \<Longrightarrow>
     (\<forall>n' pos' s'. r = Return (n', pos') s' \<longrightarrow> n \<le> n')
     \<and> (\<forall>k s'. r = Exit k s' \<longrightarrow> (k = 0 \<and> exit_on_match cfg) \<or> k = 2)"
proof (induction cfg e f st fl save residue n pos s arbitrary: r rule: grep_loop.induct)
  case (1 cfg e f st fl save residue n pos s0)
  note IH = "1.IH"
  define s where "s = s0\<lparr>lastnl := 0, lastout := (if lastout s0 \<noteq> None then Some 0 else None)\<rparr>"
  note un = grep_loop_unfold [OF s_def]
  note prems = "1.prems" [unfolded un]
  show ?case
  proof (cases "length (buf s0) = save")
    case True
    with prems obtain r0 where r0: "grep_residue cfg e save residue n s = Some r0"
      and r: "r = obind r0 (\<lambda>n s1. Return (n, pos) s1)"
      by (auto split: option.splits)
    from grep_residue_Some [OF r0] r show ?thesis
      by (cases r0) auto
  next
    case False
    with prems obtain r1 where r1: "grep_scan cfg e save residue n s = Some r1"
      by (auto split: option.splits)
    note sc = grep_scan_Some [OF r1]
    show ?thesis
    proof (cases r1)
      case Undefined
      with prems False r1 show ?thesis
        by auto
    next
      case (Exit k s1)
      with prems False r1 sc show ?thesis
        by auto
    next
      case (Return c s1)
      show ?thesis
      proof (cases c)
        case (Finish n1)
        with prems False r1 sc Return show ?thesis
          by auto
      next
        case (Refill save1 residue1 n1)
        with sc Return have n1: "n \<le> n1" by simp
        show ?thesis
        proof (cases "fillbuf e f st save1 pos s1")
          case Undefined
          with prems False r1 Return Refill show ?thesis
            by auto
        next
          case (Exit k s2)
          with prems False r1 Return Refill fillbuf_Exit [OF Exit] show ?thesis
            by auto
        next
          case fb: (Return a s2)
          obtain cc pos1 where a: "a = (cc, pos1)" by (cases a)
          show ?thesis
          proof (cases cc)
            case False
            with prems \<open>length (buf s0) \<noteq> save\<close> r1 Return Refill fb a n1 show ?thesis
              by auto
          next
            case True
            with prems \<open>length (buf s0) \<noteq> save\<close> r1 Return Refill fb a
            have rec: "grep_loop cfg e f st fl save1 residue1 n1 pos1 s2 = Some r"
              by auto
            have "(\<forall>n' pos' s'. r = Return (n', pos') s' \<longrightarrow> n1 \<le> n')
               \<and> (\<forall>k s'. r = Exit k s' \<longrightarrow> (k = 0 \<and> exit_on_match cfg) \<or> k = 2)"
              using IH [OF s_def \<open>length (buf s0) \<noteq> save\<close> r1 Return Refill fb a [symmetric] True rec] .
            with n1 show ?thesis by auto
          qed
        qed
      qed
    qed
  qed
qed


lemma grep_loop_total:
  "matcher_advances cfg \<Longrightarrow> \<exists>r. grep_loop cfg e f st fl save residue n pos s = Some r"
proof (induction cfg e f st fl save residue n pos s rule: grep_loop.induct)
  case (1 cfg e f st fl save residue n pos s0)
  note IH = "1.IH"
  note adv = "1.prems"
  define s where "s = s0\<lparr>lastnl := 0, lastout := (if lastout s0 \<noteq> None then Some 0 else None)\<rparr>"
  note un = grep_loop_unfold [OF s_def]
  show ?case
  proof (cases "length (buf s0) = save")
    case True
    from grep_residue_total [OF adv, of e save residue n s] True show ?thesis
      by (auto simp: un)
  next
    case False
    from grep_scan_total [OF adv, of e save residue n s]
    obtain r1 where r1: "grep_scan cfg e save residue n s = Some r1" ..
    show ?thesis
    proof (cases r1)
      case Undefined
      with False r1 show ?thesis by (simp add: un)
    next
      case (Exit k s1)
      with False r1 show ?thesis by (simp add: un)
    next
      case (Return c s1)
      show ?thesis
      proof (cases c)
        case (Finish n1)
        with False r1 Return show ?thesis by (simp add: un)
      next
        case (Refill save1 residue1 n1)
        show ?thesis
        proof (cases "fillbuf e f st save1 pos s1")
          case Undefined
          with False r1 Return Refill show ?thesis by (simp add: un)
        next
          case (Exit k s2)
          with False r1 Return Refill show ?thesis by (simp add: un)
        next
          case fb: (Return a s2)
          obtain cc pos1 where a: "a = (cc, pos1)" by (cases a)
          show ?thesis
          proof (cases cc)
            case False
            with \<open>length (buf s0) \<noteq> save\<close> r1 Return Refill fb a show ?thesis
              by (simp add: un)
          next
            case True
            from IH [OF s_def \<open>length (buf s0) \<noteq> save\<close> r1 Return Refill fb a [symmetric] True
                adv]
            obtain r where "grep_loop cfg e f st fl save1 residue1 n1 pos1 s2 = Some r" ..
            with True \<open>length (buf s0) \<noteq> save\<close> r1 Return Refill fb a show ?thesis
              by (simp add: un)
          qed
        qed
      qed
    qed
  qed
qed

lemma finish_grep_Return:
  "finish_grep cfg nt np s = Return np' s' \<Longrightarrow> np' = np"
  by (simp add: finish_grep_def Let_def)

lemma finish_grep_no_exit: "finish_grep cfg nt np s \<noteq> Exit k s'"
  by (simp add: finish_grep_def Let_def)

lemma grep_file_cases:
  fixes cfg e f st fl pos s
  defines "s1 \<equiv> s\<lparr>totalcc := 0, lastout := None, totalnl := 0, outleft := max_count cfg,
                 after_last_match := 0, pending := 0\<rparr>"
  obtains
    (undef) "fillbuf e f st 0 pos s1 = Undefined" "grep_file cfg e f st fl pos s = Some Undefined"
  | (fatal) k s2 where "fillbuf e f st 0 pos s1 = Exit k s2"
      "grep_file cfg e f st fl pos s = Some (Exit k s2)"
  | (failed) pos1 s2 where "fillbuf e f st 0 pos s1 = Return (False, pos1) s2"
      "grep_file cfg e f st fl pos s = Some (Return (0, pos1)
                    (if \<not> is_EISDIR (errno s2) fl
                     then suppressible_error cfg (filename s2) (errno s2) s2 else s2))"
  | (binary) pos1 s2 where "fillbuf e f st 0 pos s1 = Return (True, pos1) s2"
      "not_text_of cfg s2 \<noteq> 0" "binary_files cfg = WITHOUT_MATCH_BINARY_FILES"
      "grep_file cfg e f st fl pos s = Some (Return (0, pos1) s2)"
  | (scan) pos1 s2 where "fillbuf e f st 0 pos s1 = Return (True, pos1) s2"
      "\<not> (not_text_of cfg s2 \<noteq> 0 \<and> binary_files cfg = WITHOUT_MATCH_BINARY_FILES)"
      "grep_file cfg e f st fl pos s =
         (case grep_loop cfg e f st fl 0 0 0 pos1
                            (s2\<lparr>done_on_match := done_on_match s2 + not_text_of cfg s2,
                                out_quiet := out_quiet s2 + not_text_of cfg s2\<rparr>) of
                       None \<Rightarrow> None
                     | Some r \<Rightarrow> Some (obind r (finish_grep cfg (not_text_of cfg s2))))"
proof (cases "fillbuf e f st 0 pos s1")
  case Undefined
  then show ?thesis
    by (intro undef) (simp_all add: grep_file_def s1_def)
next
  case (Exit k s2)
  then show ?thesis
    by (intro fatal [of k s2]) (simp_all add: grep_file_def s1_def)
next
  case (Return a s2)
  obtain cc pos1 where a: "a = (cc, pos1)" by (cases a)
  show ?thesis
  proof (cases cc)
    case False
    with Return a show ?thesis
      by (intro failed [of pos1 s2]) (simp_all add: grep_file_def s1_def)
  next
    case True
    show ?thesis
    proof (cases "not_text_of cfg s2 \<noteq> 0 \<and> binary_files cfg = WITHOUT_MATCH_BINARY_FILES")
      case wm: True
      with Return a True show ?thesis
        by (intro binary [of pos1 s2]) (simp_all add: grep_file_def s1_def)
    next
      case wm: False
      with Return a True show ?thesis
        by (intro scan [of pos1 s2]) (auto simp add: grep_file_def s1_def Let_def)
    qed
  qed
qed

lemma grep_file_Some:
  assumes "grep_file cfg e f st fl pos s = Some r"
  shows "(\<forall>c pos' s'. r = Return (c, pos') s' \<longrightarrow> 0 \<le> c)
       \<and> (\<forall>k s'. r = Exit k s' \<longrightarrow> (k = 0 \<and> exit_on_match cfg) \<or> k = 2)"
proof (cases cfg e f st fl pos s rule: grep_file_cases)
  case undef
  with assms show ?thesis by simp
next
  case (fatal k s2)
  with assms fillbuf_Exit [OF fatal(1)] show ?thesis by auto
next
  case (failed pos1 s2)
  with assms show ?thesis by auto
next
  case (binary pos1 s2)
  with assms show ?thesis by auto
next
  case (scan pos1 s2)
  with assms obtain r0 where
    r0: "grep_loop cfg e f st fl 0 0 0 pos1
                            (s2\<lparr>done_on_match := done_on_match s2 + not_text_of cfg s2,
                                out_quiet := out_quiet s2 + not_text_of cfg s2\<rparr>) = Some r0"
    and r: "r = obind r0 (finish_grep cfg (not_text_of cfg s2))"
    by (auto split: option.splits)
  from grep_loop_Some [OF r0] r show ?thesis
    by (cases r0) (auto simp: finish_grep_no_exit dest!: finish_grep_Return)
qed

lemma grep_file_total:
  assumes adv: "matcher_advances cfg"
  shows "\<exists>r. grep_file cfg e f st fl pos s = Some r"
proof (cases cfg e f st fl pos s rule: grep_file_cases)
  case (scan pos1 s2)
  from grep_loop_total [OF adv] obtain r0 where
    "grep_loop cfg e f st fl 0 0 0 pos1
                            (s2\<lparr>done_on_match := done_on_match s2 + not_text_of cfg s2,
                                out_quiet := out_quiet s2 + not_text_of cfg s2\<rparr>) = Some r0"
    by blast
  with scan show ?thesis by simp
qed simp_all

lemma reset_alloc_Exit: "reset_alloc e s = Exit k s' \<Longrightarrow> k = 2 \<or> k = 134"
  by (auto simp: reset_alloc_def Let_def fatal_def abort_def split: if_splits option.splits)

lemma reset_Exit: "reset cfg e f fl anc pos s = Exit k s' \<Longrightarrow> k = 2 \<or> k = 134"
  unfolding reset_def obind_Exit
  by (auto simp: Let_def dest: reset_alloc_Exit split: if_splits)

lemma reset_Some: "reset cfg e f fl anc pos s = Return (Some st) s' \<Longrightarrow> st = f_stat f"
  unfolding reset_def
  by (auto simp: obind_Return Let_def split: if_splits)

lemma grepfile_finish_Return:
  "grepfile_finish cfg f fl c s = Return r s' \<Longrightarrow>
     r = (if c < 0 then c + 2 else of_bool (c = 0))"
  by (auto simp: grepfile_finish_def Let_def split: if_splits)

lemma grepfile_finish_no_exit: "grepfile_finish cfg f fl c s \<noteq> Exit k s'"
  by (auto simp: grepfile_finish_def Let_def split: if_splits)

lemma grepfile_finish_defined: "grepfile_finish cfg f fl c s \<noteq> Undefined"
  by (auto simp: grepfile_finish_def Let_def split: if_splits)

lemma grepfile_open_failed_status:
  "\<exists>s'. grepfile_open_failed cfg f path anc en s = Return 1 s'"
  by (simp add: grepfile_open_failed_def Let_def)

lemma status_result_simps [simp]:
  "status_result cfg (Return st s) = (st = 0 \<or> st = 1)"
  "status_result cfg (Exit k s) = exit_code cfg k"
  "status_result cfg Undefined"
  by (simp_all add: status_result_def)

lemma count_result_simps [simp]:
  "count_result cfg (Return c s) = (- 2 \<le> c)"
  "count_result cfg (Exit k s) = exit_code cfg k"
  "count_result cfg Undefined"
  by (simp_all add: count_result_def)

lemma status_of_count:
  assumes "count_result cfg r"
  shows "status_result cfg (obind r (grepfile_finish cfg f fl))"
proof (cases r)
  case (Return c s)
  show ?thesis
  proof (cases "grepfile_finish cfg f fl c s")
    case g: (Return st s')
    from grepfile_finish_Return [OF g] assms Return g show ?thesis
      by (auto split: if_splits)
  next
    case (Exit k s')
    then show ?thesis by (simp add: grepfile_finish_no_exit)
  next
    case Undefined
    with Return show ?thesis by simp
  qed
qed (use assms in simp_all)

lemma count_of_status:
  assumes "status_result cfg r"
  shows "count_result cfg (obind r (\<lambda>status s3. Return (status - 2) s3))"
  using assms by (cases r) auto

lemma count_of_grep_file:
  assumes "grep_file cfg e f st fl pos s = Some r"
  shows "count_result cfg (obind r (\<lambda>(count, pos1) s2.
                 Return count (if fl = None then s2\<lparr>stdin_pos := pos1\<rparr> else s2)))"
proof (cases r)
  case (Return a s')
  obtain c p where "a = (c, p)" by (cases a)
  with grep_file_Some [OF assms] Return show ?thesis by simp
next
  case (Exit k s')
  with grep_file_Some [OF assms] show ?thesis by (auto simp: exit_code_def)
qed simp

lemma status_of_dir:
  assumes "status_result cfg r"
  shows "status_result cfg (obind r (\<lambda>status s2.
                  Return status (s2\<lparr>out_file := out_file s2 - x\<rparr>)))"
  using assms by (cases r) auto

lemma and_status: "(a = 0 \<or> a = 1) \<Longrightarrow> (b = 0 \<or> b = 1) \<Longrightarrow> a AND b = 0 \<or> a AND b = (1::int)"
  by auto

lemma grepfile_results:
  "\<forall>r. grepfile n cfg e fl anc s = Some r \<longrightarrow> status_result cfg r"
  "\<forall>r. grep n cfg e f fl anc pos s = Some r \<longrightarrow> count_result cfg r"
  "\<forall>r. grepdir n cfg e dir st anc s = Some r \<longrightarrow> status_result cfg r"
  "\<forall>r. (status = 0 \<or> status = 1) \<longrightarrow> grepdir_loop n cfg e dir chain names status s = Some r
       \<longrightarrow> status_result cfg r"
proof (induction n cfg e fl anc s and n cfg e f fl anc pos s and n cfg e dir st anc s
    and n cfg e dir chain names status s rule: grepfile_grep_grepdir_grepdir_loop.induct)
  case (1 n cfg e fl anc s)
  show ?case
  proof (intro allI impI)
    fix r assume r: "grepfile n cfg e fl anc s = Some r"
    show "status_result cfg r"
    proof (cases fl)
      case None
      with r obtain r0 where
        r0: "grep n cfg e (stdin_file e) None anc (stdin_pos s)
               (s\<lparr>filename := ''(standard input)''\<rparr>) = Some r0"
        and rr: "r = obind r0 (grepfile_finish cfg (stdin_file e) None)"
        by (auto simp: grepfile.simps split: option.splits)
      from "1.IH"(1) [OF None] r0 have "count_result cfg r0" by blast
      then show ?thesis unfolding rr by (rule status_of_count)
    next
      case (Some path)
      define f where "f = fs e path"
      show ?thesis
      proof (cases "f_open_errno f \<noteq> 0")
        case op: True
        show ?thesis
        proof (cases "is_EISDIR (f_open_errno f) fl \<and> directories cfg = RECURSE_DIRECTORIES")
          case rec: True
          show ?thesis
          proof (cases "f_stat_errno f \<noteq> 0")
            case True
            with r Some op rec show ?thesis
              by (auto simp: grepfile.simps f_def Let_def)
          next
            case False
            with r Some op rec have
              "grepdir n cfg e path (f_stat f) anc
                 (store_stat anc (f_stat f) (s\<lparr>errno := f_open_errno f\<rparr>)) = Some r"
              by (auto simp: grepfile.simps f_def Let_def)
            with "1.IH"(2) [OF Some f_def op refl refl _ False] rec
            show ?thesis by blast
          qed
        next
          case False
          with r Some op have
            "r = grepfile_open_failed cfg f path anc (f_open_errno f) (s\<lparr>errno := f_open_errno f\<rparr>)"
            by (auto simp: grepfile.simps f_def Let_def)
          with grepfile_open_failed_status [of cfg f path anc "f_open_errno f"
              "s\<lparr>errno := f_open_errno f\<rparr>"]
          show ?thesis by auto
        qed
      next
        case op: False
        with r Some obtain r0 where
          r0: "grep n cfg e f fl anc 0 (s\<lparr>filename := path\<rparr>) = Some r0"
          and rr: "r = obind r0 (grepfile_finish cfg f fl)"
          by (auto simp: grepfile.simps f_def Let_def split: option.splits)
        from "1.IH"(3) [OF Some f_def op] r0 have "count_result cfg r0" by blast
        then show ?thesis unfolding rr by (rule status_of_count)
      qed
    qed
  qed
next
  case (2 n cfg e f fl anc pos s)
  show ?case
  proof (intro allI impI)
    fix r assume r: "grep n cfg e f fl anc pos s = Some r"
    show "count_result cfg r"
    proof (cases "reset cfg e f fl anc pos s")
      case Undefined
      with r show ?thesis by (simp add: grep.simps)
    next
      case (Exit k s1)
      with r reset_Exit [OF Exit] show ?thesis by (auto simp: grep.simps exit_code_def)
    next
      case (Return o1 s1)
      show ?thesis
      proof (cases o1)
        case None
        with r Return show ?thesis by (auto simp: grep.simps)
      next
        case (Some st)
        show ?thesis
        proof (cases "fl \<noteq> None \<and> directories cfg = RECURSE_DIRECTORIES \<and> st_mode st = S_IFDIR")
          case True
          define s2 where "s2 = (if f_close_errno f \<noteq> 0
                       then error (the fl) (f_close_errno f) (s1\<lparr>errno := f_close_errno f\<rparr>)
                       else s1)"
          from r Return Some True obtain r0 where
            r0: "grepdir n cfg e (the fl) st anc s2 = Some r0"
            and rr: "r = obind r0 (\<lambda>status s3. Return (status - 2) s3)"
            by (auto simp: grep.simps Let_def s2_def split: option.splits)
          from "2.IH" [OF Return Some True refl s2_def] r0 have "status_result cfg r0"
            by blast
          then show ?thesis unfolding rr by (rule count_of_status)
        next
          case False
          with r Return Some obtain r0 where
            r0: "grep_file cfg e f st fl pos s1 = Some r0"
            and rr: "r = obind r0 (\<lambda>(count, pos1) s2.
                 Return count (if fl = None then s2\<lparr>stdin_pos := pos1\<rparr> else s2))"
            by (auto simp: grep.simps split: option.splits)
          show ?thesis unfolding rr by (rule count_of_grep_file [OF r0])
        qed
      qed
    qed
  qed
next
  case (3 cfg e dir st anc s)
  show ?case by (simp add: grepdir.simps)
next
  case (4 n cfg e dir st anc s)
  show ?case
  proof (intro allI impI)
    fix r assume r: "grepdir (Suc n) cfg e dir st anc s = Some r"
    show "status_result cfg r"
    proof (cases "list_ex (\<lambda>a. st_ino a = st_ino st \<and> st_dev a = st_dev st) anc")
      case True
      with r show ?thesis by (auto simp: grepdir.simps)
    next
      case loop: False
      show ?thesis
      proof (cases "f_savedir (fs e dir)")
        case None
        with r loop show ?thesis
          by (auto simp: grepdir.simps Let_def fatal_def exit_code_def split: if_splits)
      next
        case (Some names)
        define s1 where "s1 = s\<lparr>out_file := out_file s + of_bool (\<not> no_filenames cfg)\<rparr>"
        from r loop Some obtain r0 where
          r0: "grepdir_loop n cfg e dir (st # anc) names 1 s1 = Some r0"
          and rr: "r = obind r0 (\<lambda>status s2.
                  Return status (s2\<lparr>out_file := out_file s2 - of_bool (\<not> no_filenames cfg)\<rparr>))"
          by (auto simp: grepdir.simps Let_def s1_def split: option.splits)
        from "4.IH" [OF loop Some s1_def] r0 have "status_result cfg r0" by blast
        then show ?thesis unfolding rr by (rule status_of_dir)
      qed
    qed
  qed
next
  case (5 n cfg e dir chain status s)
  show ?case by (auto simp: grepdir_loop.simps)
next
  case (6 n cfg e dir chain name names status s)
  show ?case
  proof (intro allI impI)
    fix r assume st: "status = 0 \<or> status = 1"
      and r: "grepdir_loop n cfg e dir chain (name # names) status s = Some r"
    show "status_result cfg r"
    proof (cases "name = []")
      case True
      with r st show ?thesis by (auto simp: grepdir_loop.simps)
    next
      case ne: False
      show ?thesis
      proof (cases "alloc e (of_nat (length dir + 1 + length name + 1)) = 0")
        case True
        with r ne show ?thesis by (auto simp: grepdir_loop.simps fatal_def exit_code_def)
      next
        case al: False
        from r ne al obtain r1 where r1: "grepfile n cfg e (Some (entry_path dir name)) chain s = Some r1"
          by (auto simp: grepdir_loop.simps split: option.splits)
        from "6.IH"(1) [OF ne al] r1 have sr1: "status_result cfg r1" by blast
        show ?thesis
        proof (cases r1)
          case Undefined
          with r ne al r1 show ?thesis by (simp add: grepdir_loop.simps)
        next
          case (Exit k s1)
          with r ne al r1 sr1 show ?thesis by (auto simp: grepdir_loop.simps)
        next
          case (Return r2 s1)
          with r ne al r1 have
            "grepdir_loop n cfg e dir chain names (status AND r2) s1 = Some r"
            by (simp add: grepdir_loop.simps)
          moreover from sr1 Return st have "status AND r2 = 0 \<or> status AND r2 = 1"
            by (intro and_status) simp_all
          ultimately show ?thesis
            using "6.IH"(2) [OF ne al r1 Return] by blast
        qed
      qed
    qed
  qed
qed

lemma loop_check:
  "list_ex (\<lambda>a. st_ino a = st_ino st \<and> st_dev a = st_dev st) anc
     \<longleftrightarrow> file_id st \<in> file_id ` set anc"
  by (induction anc) (auto simp: file_id_def)

lemma known_id: "file_id (f_stat (fs e p)) \<in> known_ids e"
  by (simp add: known_ids_def)

lemma unvisited_less:
  assumes "finite (known_ids e)" "file_id st \<in> known_ids e" "file_id st \<notin> file_id ` set anc"
  shows "card (unvisited e (st # anc)) < card (unvisited e anc)"
proof (rule psubset_card_mono)
  show "finite (unvisited e anc)" using assms(1) by (simp add: unvisited_def)
  show "unvisited e (st # anc) \<subset> unvisited e anc"
    using assms(2,3) by (auto simp: unvisited_def)
qed

lemma grepfile_total_aux:
  "matcher_advances cfg \<longrightarrow> finite (known_ids e) \<longrightarrow> card (unvisited e anc) < n
     \<longrightarrow> (\<exists>r. grepfile n cfg e fl anc s = Some r)"
  "matcher_advances cfg \<longrightarrow> finite (known_ids e) \<longrightarrow> card (unvisited e anc) < n
     \<longrightarrow> (\<forall>path. fl = Some path \<longrightarrow> f = fs e path)
     \<longrightarrow> (\<exists>r. grep n cfg e f fl anc pos s = Some r)"
  "matcher_advances cfg \<longrightarrow> finite (known_ids e) \<longrightarrow> card (unvisited e anc) < n
     \<longrightarrow> file_id st \<in> known_ids e
     \<longrightarrow> (\<exists>r. grepdir n cfg e dir st anc s = Some r)"
  "matcher_advances cfg \<longrightarrow> finite (known_ids e) \<longrightarrow> card (unvisited e chain) < n
     \<longrightarrow> (\<exists>r. grepdir_loop n cfg e dir chain names status s = Some r)"
proof (induction n cfg e fl anc s and n cfg e f fl anc pos s and n cfg e dir st anc s
    and n cfg e dir chain names status s rule: grepfile_grep_grepdir_grepdir_loop.induct)
  case (1 n cfg e fl anc s)
  show ?case
  proof (intro impI)
    assume adv: "matcher_advances cfg" and fin: "finite (known_ids e)"
      and fuel: "card (unvisited e anc) < n"
    show "\<exists>r. grepfile n cfg e fl anc s = Some r"
    proof (cases fl)
      case None
      from "1.IH"(1) [OF None] adv fin fuel None obtain r0 where
        "grep n cfg e (stdin_file e) None anc (stdin_pos s)
               (s\<lparr>filename := ''(standard input)''\<rparr>) = Some r0"
        by blast
      with None show ?thesis by (simp add: grepfile.simps)
    next
      case (Some path)
      define f where "f = fs e path"
      show ?thesis
      proof (cases "f_open_errno f \<noteq> 0")
        case op: True
        show ?thesis
        proof (cases "is_EISDIR (f_open_errno f) fl \<and> directories cfg = RECURSE_DIRECTORIES")
          case rec: True
          show ?thesis
          proof (cases "f_stat_errno f \<noteq> 0")
            case True
            with Some op rec show ?thesis
              by (simp add: grepfile.simps f_def [symmetric] Let_def)
          next
            case False
            from "1.IH"(2) [OF Some f_def op refl refl _ False] rec adv fin fuel
              known_id [of e path]
            obtain r0 where "grepdir n cfg e path (f_stat f) anc
                 (store_stat anc (f_stat f) (s\<lparr>errno := f_open_errno f\<rparr>)) = Some r0"
              unfolding f_def by blast
            with Some op rec False show ?thesis
              by (simp add: grepfile.simps f_def [symmetric] Let_def)
          qed
        next
          case False
          with Some op show ?thesis
            by (auto simp add: grepfile.simps f_def [symmetric] Let_def)
        qed
      next
        case op: False
        from "1.IH"(3) [OF Some f_def op] adv fin fuel Some f_def obtain r0 where
          "grep n cfg e f fl anc 0 (s\<lparr>filename := path\<rparr>) = Some r0"
          by blast
        with Some op show ?thesis
          by (simp add: grepfile.simps f_def [symmetric] Let_def)
      qed
    qed
  qed
next
  case (2 n cfg e f fl anc pos s)
  show ?case
  proof (intro impI)
    assume adv: "matcher_advances cfg" and fin: "finite (known_ids e)"
      and fuel: "card (unvisited e anc) < n"
      and ff: "\<forall>path. fl = Some path \<longrightarrow> f = fs e path"
    show "\<exists>r. grep n cfg e f fl anc pos s = Some r"
    proof (cases "reset cfg e f fl anc pos s")
      case Undefined
      then show ?thesis by (simp add: grep.simps)
    next
      case (Exit k s1)
      then show ?thesis by (simp add: grep.simps)
    next
      case (Return o1 s1)
      show ?thesis
      proof (cases o1)
        case None
        with Return show ?thesis by (simp add: grep.simps)
      next
        case (Some st)
        show ?thesis
        proof (cases "fl \<noteq> None \<and> directories cfg = RECURSE_DIRECTORIES \<and> st_mode st = S_IFDIR")
          case True
          define s2 where "s2 = (if f_close_errno f \<noteq> 0
                       then error (the fl) (f_close_errno f) (s1\<lparr>errno := f_close_errno f\<rparr>)
                       else s1)"
          from Return Some reset_Some have "st = f_stat f" by blast
          with ff True have "file_id st \<in> known_ids e"
            by (auto simp: known_id)
          with "2.IH" [OF Return Some True refl s2_def] adv fin fuel obtain r0 where
            "grepdir n cfg e (the fl) st anc s2 = Some r0"
            by blast
          with Return Some True show ?thesis
            by (auto simp: grep.simps Let_def s2_def)
        next
          case False
          from grep_file_total [OF adv] obtain r0 where
            "grep_file cfg e f st fl pos s1 = Some r0" by blast
          with False Return Some show ?thesis
            by (auto simp: grep.simps)
        qed
      qed
    qed
  qed
next
  case (3 cfg e dir st anc s)
  show ?case by simp
next
  case (4 n cfg e dir st anc s)
  show ?case
  proof (intro impI)
    assume adv: "matcher_advances cfg" and fin: "finite (known_ids e)"
      and fuel: "card (unvisited e anc) < Suc n"
      and st: "file_id st \<in> known_ids e"
    show "\<exists>r. grepdir (Suc n) cfg e dir st anc s = Some r"
    proof (cases "list_ex (\<lambda>a. st_ino a = st_ino st \<and> st_dev a = st_dev st) anc")
      case True
      then show ?thesis by (simp add: grepdir.simps)
    next
      case loop: False
      show ?thesis
      proof (cases "f_savedir (fs e dir)")
        case None
        with loop show ?thesis
          by (simp add: grepdir.simps Let_def)
      next
        case (Some names)
        define s1 where "s1 = s\<lparr>out_file := out_file s + of_bool (\<not> no_filenames cfg)\<rparr>"
        from loop have "file_id st \<notin> file_id ` set anc" by (simp add: loop_check)
        from unvisited_less [OF fin st this] fuel
        have "card (unvisited e (st # anc)) < n" by simp
        with "4.IH" [OF loop Some s1_def] adv fin obtain r0 where
          "grepdir_loop n cfg e dir (st # anc) names 1 s1 = Some r0" by blast
        with loop Some show ?thesis
          by (simp add: grepdir.simps Let_def s1_def [symmetric])
      qed
    qed
  qed
next
  case (5 n cfg e dir chain status s)
  show ?case by (simp add: grepdir_loop.simps)
next
  case (6 n cfg e dir chain name names status s)
  show ?case
  proof (intro impI)
    assume adv: "matcher_advances cfg" and fin: "finite (known_ids e)"
      and fuel: "card (unvisited e chain) < n"
    show "\<exists>r. grepdir_loop n cfg e dir chain (name # names) status s = Some r"
    proof (cases "name = []")
      case True
      then show ?thesis by (simp add: grepdir_loop.simps)
    next
      case ne: False
      show ?thesis
      proof (cases "alloc e (of_nat (length dir + 1 + length name + 1)) = 0")
        case True
        with ne show ?thesis by (simp add: grepdir_loop.simps)
      next
        case al: False
        from "6.IH"(1) [OF ne al] adv fin fuel obtain r1 where
          r1: "grepfile n cfg e (Some (entry_path dir name)) chain s = Some r1"
          by blast
        show ?thesis
        proof (cases r1)
          case Undefined
          with ne al r1 show ?thesis by (simp add: grepdir_loop.simps)
        next
          case (Exit k s1)
          with ne al r1 show ?thesis by (simp add: grepdir_loop.simps)
        next
          case (Return r2 s1)
          from "6.IH"(2) [OF ne al r1 Return] adv fin fuel obtain r where
            "grepdir_loop n cfg e dir chain names (status AND r2) s1 = Some r" by blast
          with ne al r1 Return show ?thesis by (simp add: grepdir_loop.simps)
        qed
      qed
    qed
  qed
qed


lemma count_slice:
  assumes "p \<le> nl" "nl < lim" "nl < length m" "m ! nl = c"
  shows "count_list (take (lim - Suc nl) (drop (Suc nl) m)) c
           < count_list (take (lim - p) (drop p m)) c"
proof -
  have d: "drop p m = take (nl - p) (drop p m) @ m ! nl # drop (Suc nl) m"
    using assms(1,3)
    by (metis Cons_nth_drop_Suc append_take_drop_id drop_drop le_add_diff_inverse2)
  have l: "length (take (nl - p) (drop p m)) = nl - p"
    using assms(1,3) by simp
  have "take (lim - p) (drop p m)
          = take (nl - p) (drop p m) @ m ! nl # take (lim - Suc nl) (drop (Suc nl) m)"
    apply (subst d)
    apply (subst take_append)
    using assms(1,2) l
    apply (simp add: take_Cons' )
    done
  then show ?thesis using assms(4) by simp
qed

lemma prline_buf: "prline cfg e beg lim sep s = Return u s' \<Longrightarrow> buf s' = buf s"
  by (drule prline_frame) (simp add: scan_frame_def)

lemma prlines_count:
  "prlines cfg e p lim n s = Return (q, n') s' \<Longrightarrow>
     n' - n \<le> int (count_list (take (lim - p) (drop p (buf s))) (eolbyte cfg))"
proof (induction cfg e p lim n s arbitrary: q n' rule: prlines.induct)
  case (1 cfg e p lim n s)
  note IH = "1.IH"
  show ?case
  proof (cases "p < lim \<and> n < outleft s")
    case False
    with "1.prems" show ?thesis
      by (subst (asm) prlines.simps) auto
  next
    case True
    with "1.prems" obtain nl where nl: "memchr (buf s) p (eolbyte cfg) (lim - p) = Some nl"
      by (subst (asm) prlines.simps) (auto split: option.splits)
    define m where "m = (if out_quiet s = 0 then prline cfg e p (nl + 1) CHR '':'' s
                    else Return () s)"
    from "1.prems" True nl obtain u s1 where
      m: "m = Return u s1" and rest: "prlines cfg e (nl + 1) lim (n + 1) s1 = Return (q, n') s'"
      unfolding m_def
      by (subst (asm) prlines.simps) (auto split: outcome.splits)
    have b: "buf s1 = buf s"
      using m unfolding m_def by (auto split: if_splits dest: prline_buf)
    from IH [OF True nl m [unfolded m_def] rest]
    have "n' - (n + 1) \<le> int (count_list (take (lim - (nl + 1)) (drop (nl + 1) (buf s)))
             (eolbyte cfg))"
      by (simp add: b)
    moreover from memchr_Some [OF nl] True
    have "count_list (take (lim - Suc nl) (drop (Suc nl) (buf s))) (eolbyte cfg)
           < count_list (take (lim - p) (drop p (buf s))) (eolbyte cfg)"
      by (intro count_slice) auto
    ultimately show ?thesis by simp
  qed
qed

lemma back_line_le: "back_line m eol bp p \<le> p"
proof (induction m eol bp p rule: back_line.induct)
  case (1 m eol bp p)
  show ?case
    apply (subst back_line.simps)
    using "1.IH" [OF refl]
    apply (auto simp: Let_def)
    done
qed

lemma leading_context_le: "leading_context m eol bp i p \<le> p"
proof (induction i arbitrary: p)
  case (Suc i)
  have "leading_context m eol bp i (if bp < p then back_line m eol bp p else p)
          \<le> (if bp < p then back_line m eol bp p else p)"
    by (rule Suc)
  also have "\<dots> \<le> p" by (simp add: back_line_le)
  finally show ?case by simp
qed simp

lemma prcontext_end:
  "prcontext cfg e p beg s = Return q s' \<Longrightarrow> p \<le> beg \<Longrightarrow> q = beg"
proof (induction cfg e p beg s arbitrary: q rule: prcontext.induct)
  case (1 cfg e p beg s)
  note IH = "1.IH"
  show ?case
  proof (cases "p < beg")
    case False
    with "1.prems" show ?thesis
      by (subst (asm) prcontext.simps) auto
  next
    case True
    with "1.prems" obtain nl where nl: "memchr (buf s) p (eolbyte cfg) (beg - p) = Some nl"
      by (subst (asm) prcontext.simps) (auto split: option.splits)
    from "1.prems" True nl obtain u s1 where
      m: "prline cfg e p (nl + 1) CHR ''-'' s = Return u s1"
      and rest: "prcontext cfg e (nl + 1) beg s1 = Return q s'"
      by (subst (asm) prcontext.simps) (auto split: outcome.splits)
    from memchr_Some [OF nl] True have "nl + 1 \<le> beg" by simp
    with IH [OF True nl m rest] show ?thesis by simp
  qed
qed

lemma prtext_leading_end:
  "prtext_leading cfg e beg s = Return p s' \<Longrightarrow> p = beg"
  unfolding prtext_leading_def Let_def
  by (erule prcontext_end) (rule leading_context_le)

lemma prtext_count:
  assumes "prtext cfg e beg lim True s = Return r s'"
  shows "\<exists>n. r = Some n \<and> 0 \<le> n \<and> n \<le> int (region_lines cfg beg lim s)"
proof -
  from assms have le: "\<not> length (buf s) < beg"
    by (simp add: prtext_def split: if_splits)
  from assms le obtain u s1 p s2 s3 where
    a: "(if out_quiet s = 0 \<and> 0 < pending s then prpending cfg e beg s else Return () s)
          = Return u s1"
    and b: "(if out_quiet s1 = 0 then prtext_leading cfg e beg s1 else Return beg s1)
          = Return p s2"
    and c: "prtext_matched cfg e beg lim True p s2 = Return r s3"
    by (auto simp: prtext_def obind_Return)
  from a have fa: "buf s1 = buf s"
    by (cases "out_quiet s = 0 \<and> 0 < pending s")
       (auto dest!: prpending_frame simp: scan_frame_def)
  from b have fb: "buf s2 = buf s1 \<and> p = beg"
    by (cases "out_quiet s1 = 0")
       (auto dest: prtext_leading_frame prtext_leading_end simp: scan_frame_def)
  from c obtain q n s4 where pl: "prlines cfg e p lim 0 s2 = Return (q, n) s4"
    and r: "r = Some n"
    by (auto simp: prtext_matched_def obind_Return)
  from prlines_count [OF pl] prlines_frame [OF pl] fa fb r show ?thesis
    by (simp add: region_lines_def)
qed

subsection \<open>A run on the sample file\<close>

lemma sample_cfg_fields:
  "suppress_errors (sample_cfg c) = False" "directories (sample_cfg c) = READ_DIRECTORIES"
  "binary_files (sample_cfg c) = BINARY_BINARY_FILES" "eolbyte (sample_cfg c) = CHR 0x0A"
  "filename_mask (sample_cfg c) = - 1" "out_quiet_opt (sample_cfg c) = False"
  "done_on_match_opt (sample_cfg c) = False" "exit_on_match (sample_cfg c) = False"
  "out_invert (sample_cfg c) = False" "out_line (sample_cfg c) = False"
  "out_byte (sample_cfg c) = False" "out_before (sample_cfg c) = 0"
  "out_after (sample_cfg c) = 0" "count_matches (sample_cfg c) = False"
  "list_files (sample_cfg c) = 0" "no_filenames (sample_cfg c) = False"
  "with_filenames (sample_cfg c) = False" "max_count (sample_cfg c) = 9223372036854775807"
  by (simp_all add: sample_cfg_def)







lemma quiet_grep_scan:
  "grep_scan quiet_cfg sample_run_env 0 0 0
     \<lparr>errseen = True, errno = 2, stdout = [], stderr = [Diag ''missing'' 2],
       filename = ''x'', pagesize = 4096, bufsalloc = 8192, bufalloc = 40960,
       buffer = 65536, buf = sample_text, bufoffset = 9, stdin_pos = 0,
       stats_base = \<lparr>st_mode = S_IFREG, st_ino = 1, st_dev = 1, st_size = 9\<rparr>,
       after_last_match = 0, out_quiet = 1, out_file = 0, done_on_match = 1,
       totalcc = 0, lastnl = 0, lastout = None, totalnl = 0,
       outleft = 9223372036854775807, pending = 0, used = False\<rparr>
   = Some (Exit 0
     \<lparr>errseen = True, errno = 2, stdout = [], stderr = [Diag ''missing'' 2],
       filename = ''x'', pagesize = 4096, bufsalloc = 8192, bufalloc = 40960,
       buffer = 65536, buf = sample_text, bufoffset = 9, stdin_pos = 0,
       stats_base = \<lparr>st_mode = S_IFREG, st_ino = 1, st_dev = 1, st_size = 9\<rparr>,
       after_last_match = 0, out_quiet = 1, out_file = 0, done_on_match = 1,
       totalcc = 0, lastnl = 0, lastout = None, totalnl = 0,
       outleft = 9223372036854775806, pending = 0, used = True\<rparr>)"
  by code_simp

lemma sample_text_length: "length sample_text = 9"
  by (simp add: sample_text_def)

lemma sample_text_set: "CHR 0x00 \<notin> set sample_text"
  by (simp add: sample_text_def)

lemma regular_file_fields:
  "f_open_errno (regular_file d) = 0" "f_stat_errno (regular_file d) = 0"
  "f_fstat_errno (regular_file d) = 0" "f_lseek_errno (regular_file d) = 0"
  "f_data (regular_file d) = d" "f_read_errno (regular_file d) = 0"
  "f_close_errno (regular_file d) = 0"
  "f_stat (regular_file d)
     = \<lparr>st_mode = S_IFREG, st_ino = 1, st_dev = 1, st_size = int (length d)\<rparr>"
  by (simp_all add: regular_file_def)






lemma reset_regular:
  assumes "pagesize s = 0" "getpagesize e = 4096" "alloc e 45055 \<noteq> 0"
    and "f_fstat_errno f = 0" "st_mode (f_stat f) = S_IFREG"
  shows "reset cfg e f (Some path) [] pos s
           = Return (Some (f_stat f))
               (s\<lparr>pagesize := 4096, bufsalloc := 8192, bufalloc := 40960,
                  buffer := ALIGN_TO (alloc e 45055) 4096, buf := [], stats_base := f_stat f,
                  bufoffset := 0\<rparr>)"
  using assms
  by (simp add: reset_def reset_alloc_def Let_def page_alloc_def ALIGN_TO_def
        PREFERRED_SAVE_FACTOR_def store_stat_def)

lemma fillbuf_read:
  assumes "save \<le> length (buf s)" "\<not> bufsalloc s < of_nat save" "f_read_errno f = 0"
  shows "fillbuf e f st save pos s
           = Return (True, pos + length (take (unat (bufalloc s - bufsalloc s))
                                           (drop pos (f_data f))))
               (s\<lparr>bufoffset := bufoffset s
                       + int (length (take (unat (bufalloc s - bufsalloc s))
                                        (drop pos (f_data f)))),
                  buf := drop (length (buf s) - save) (buf s)
                         @ take (unat (bufalloc s - bufsalloc s)) (drop pos (f_data f))\<rparr>)"
  using assms by (simp add: fillbuf_def Let_def)

lemma grep_loop_one_buffer:
  assumes scan: "grep_scan cfg e 0 0 0 (s\<lparr>lastnl := 0, lastout := None\<rparr>)
                 = Some (Return (Refill 0 0 n1) s1)"
    and "lastout s = None" "lastout s1 = None"
    and "buf s \<noteq> []" "length (f_data f) \<le> pos" "f_read_errno f = 0"
  shows "grep_loop cfg e f st fl 0 0 0 pos s
           = Some (Return (n1, pos) (s1\<lparr>buf := [], lastnl := 0\<rparr>))"
proof -
  have fb: "fillbuf e f st 0 pos s1 = Return (True, pos) (s1\<lparr>bufoffset := bufoffset s1, buf := []\<rparr>)"
    using assms(5,6) by (simp add: fillbuf_read)
  have eq: "s1\<lparr>buf := [], lastnl := 0, lastout := None\<rparr> = s1\<lparr>buf := [], lastnl := 0\<rparr>"
    using assms(3) by simp
  show ?thesis
    apply (subst grep_loop_unfold [OF refl])
    apply (simp add: assms(2,4) scan fb)
    apply (subst grep_loop_unfold [OF refl])
    apply (simp add: grep_residue_def assms(3) eq)
    done
qed

lemma close_failing_env_fields:
  "fs close_failing_env p = sample_files p"
  "stdin_file close_failing_env = regular_file sample_text"
  "getpagesize close_failing_env = 4096" "alloc close_failing_env n = 65536"
  "stdout_ferror close_failing_env = False" "stdout_fclose_eof close_failing_env = True"
  "stdout_errno close_failing_env = 28"
  by (simp_all add: close_failing_env_def sample_run_env_def sample_env_def)

lemma close_failing_grep_scan:
  "grep_scan (sample_cfg CHR ''b'') close_failing_env 0 0 0
     \<lparr>errseen = False, errno = 0, stdout = [], stderr = [],
       filename = ''x'', pagesize = 4096, bufsalloc = 8192, bufalloc = 40960,
       buffer = 65536, buf = sample_text, bufoffset = 9, stdin_pos = 0,
       stats_base = \<lparr>st_mode = S_IFREG, st_ino = 1, st_dev = 1, st_size = 9\<rparr>,
       after_last_match = 0, out_quiet = 0, out_file = 0, done_on_match = 0,
       totalcc = 0, lastnl = 0, lastout = None, totalnl = 0,
       outleft = 9223372036854775807, pending = 0, used = False\<rparr>
   = Some (Return (Refill 0 0 1)
     \<lparr>errseen = False, errno = 0, stdout = ''bb'' @ [CHR 0x0A], stderr = [],
       filename = ''x'', pagesize = 4096, bufsalloc = 8192, bufalloc = 40960,
       buffer = 65536, buf = sample_text, bufoffset = 9, stdin_pos = 0,
       stats_base = \<lparr>st_mode = S_IFREG, st_ino = 1, st_dev = 1, st_size = 9\<rparr>,
       after_last_match = 0, out_quiet = 0, out_file = 0, done_on_match = 0,
       totalcc = 9, lastnl = 0, lastout = None, totalnl = 0,
       outleft = 9223372036854775806, pending = 0, used = True\<rparr>)"
  by code_simp


lemma close_failing_grepfile:
  "grepfile n (sample_cfg CHR ''b'') close_failing_env (Some ''x'') []
      (init_state (sample_cfg CHR ''b''))
   = Some (Return 0
     \<lparr>errseen = False, errno = 0, stdout = ''bb'' @ [CHR 0x0A], stderr = [],
       filename = ''x'', pagesize = 4096, bufsalloc = 8192, bufalloc = 40960,
       buffer = 65536, buf = [], bufoffset = 9, stdin_pos = 0,
       stats_base = \<lparr>st_mode = S_IFREG, st_ino = 1, st_dev = 1, st_size = 9\<rparr>,
       after_last_match = 0, out_quiet = 0, out_file = 0, done_on_match = 0,
       totalcc = 9, lastnl = 0, lastout = None, totalnl = 0,
       outleft = 9223372036854775806, pending = 0, used = True\<rparr>)"
  apply (subst grepfile.simps)
  apply (simp add: close_failing_env_fields sample_files_def Let_def regular_file_fields
      del: One_nat_def)
  apply (subst grep.simps)
  apply (simp add: init_state_def sample_cfg_fields reset_regular close_failing_env_fields
      regular_file_fields ALIGN_TO_def sample_text_length del: One_nat_def)
  apply (simp add: grep_file_def sample_cfg_fields fillbuf_read regular_file_fields Let_def
      not_text_of_def memchr_def sample_text_length sample_text_set del: One_nat_def)
  apply (subst grep_loop_one_buffer [OF _ _ _ _ _ regular_file_fields(6)])
       apply (simp add: close_failing_grep_scan del: One_nat_def)
      apply simp
     apply simp
    apply (simp add: sample_text_def)
   apply (simp add: regular_file_fields sample_text_length)
  apply (simp add: finish_grep_def grepfile_finish_def sample_cfg_fields
      Let_def regular_file_fields del: One_nat_def)
  done


lemma main_loop_status:
  "main_loop n cfg e files status s = Some (Return r s') \<Longrightarrow> status = 0 \<or> status = 1 \<Longrightarrow>
     r = (if status = 0 \<or> 0 \<in> set (operand_statuses n cfg e files s) then 0 else 1)"
proof (induction files arbitrary: status s)
  case Nil
  then show ?case by auto
next
  case (Cons a files)
  from Cons.prems(1) obtain r1 s1 where
    g: "grepfile n cfg e (if a = ''-'' then None else Some a) [] s = Some (Return r1 s1)"
    and rest: "main_loop n cfg e files (status AND r1) s1 = Some (Return r s')"
    by (auto split: option.splits outcome.splits)
  from grepfile_results(1) g have r1: "r1 = 0 \<or> r1 = 1" by fastforce
  with Cons.prems(2) have "status AND r1 = 0 \<or> status AND r1 = 1"
    by (intro and_status)
  from Cons.IH [OF rest this] g r1 Cons.prems(2) show ?case
    by auto
qed


lemma main_search_status:
  assumes "main_search n cfg e files s = Some (Return status s')"
  shows "status = (if 0 \<in> set (operand_statuses n cfg e (operands files) s) then 0 else 1)"
proof (cases "files = []")
  case True
  with assms have g: "grepfile n cfg e None [] s = Some (Return status s')"
    by (simp add: main_search_def)
  from grepfile_results(1) g have "status = 0 \<or> status = 1" by fastforce
  with g True show ?thesis by (auto simp: operands_def)
next
  case False
  with assms main_loop_status [of n cfg e files 1 s status s'] show ?thesis
    by (simp add: main_search_def operands_def)
qed




lemma close_failing_main_search:
  "main_search n (sample_cfg CHR ''b'') close_failing_env [''x'']
      (main_start (sample_cfg CHR ''b'') [''x''])
   = Some (Return 0
     \<lparr>errseen = False, errno = 0, stdout = ''bb'' @ [CHR 0x0A], stderr = [],
       filename = ''x'', pagesize = 4096, bufsalloc = 8192, bufalloc = 40960,
       buffer = 65536, buf = [], bufoffset = 9, stdin_pos = 0,
       stats_base = \<lparr>st_mode = S_IFREG, st_ino = 1, st_dev = 1, st_size = 9\<rparr>,
       after_last_match = 0, out_quiet = 0, out_file = 0, done_on_match = 0,
       totalcc = 9, lastnl = 0, lastout = None, totalnl = 0,
       outleft = 9223372036854775806, pending = 0, used = True\<rparr>)"
  by (simp add: main_search_def main_start_def Let_def sample_cfg_fields
        close_failing_grepfile del: One_nat_def)

lemma grepfile_fuel_aux:
  "finite (known_ids e) \<longrightarrow> card (unvisited e anc) < n
     \<longrightarrow> (\<forall>m. card (unvisited e anc) < m
            \<longrightarrow> grepfile n cfg e fl anc s = grepfile m cfg e fl anc s)"
  "finite (known_ids e) \<longrightarrow> card (unvisited e anc) < n
     \<longrightarrow> (\<forall>path. fl = Some path \<longrightarrow> f = fs e path)
     \<longrightarrow> (\<forall>m. card (unvisited e anc) < m
            \<longrightarrow> grep n cfg e f fl anc pos s = grep m cfg e f fl anc pos s)"
  "finite (known_ids e) \<longrightarrow> card (unvisited e anc) < n
     \<longrightarrow> file_id st \<in> known_ids e
     \<longrightarrow> (\<forall>m. card (unvisited e anc) < m
            \<longrightarrow> grepdir n cfg e dir st anc s = grepdir m cfg e dir st anc s)"
  "finite (known_ids e) \<longrightarrow> card (unvisited e chain) < n
     \<longrightarrow> (\<forall>m. card (unvisited e chain) < m
            \<longrightarrow> grepdir_loop n cfg e dir chain names status s
                = grepdir_loop m cfg e dir chain names status s)"
proof (induction n cfg e fl anc s and n cfg e f fl anc pos s and n cfg e dir st anc s
    and n cfg e dir chain names status s rule: grepfile_grep_grepdir_grepdir_loop.induct)
  case (1 n cfg e fl anc s)
  show ?case
  proof (intro impI allI)
    fix m
    assume fin: "finite (known_ids e)" and fuel: "card (unvisited e anc) < n"
      and fm: "card (unvisited e anc) < m"
    show "grepfile n cfg e fl anc s = grepfile m cfg e fl anc s"
    proof (cases fl)
      case None
      from "1.IH"(1) [OF None] fin fuel fm None
      have "grep n cfg e (stdin_file e) None anc (stdin_pos s)
               (s\<lparr>filename := ''(standard input)''\<rparr>)
            = grep m cfg e (stdin_file e) None anc (stdin_pos s)
               (s\<lparr>filename := ''(standard input)''\<rparr>)"
        by blast
      with None show ?thesis by (simp add: grepfile.simps)
    next
      case (Some path)
      define f where "f = fs e path"
      show ?thesis
      proof (cases "f_open_errno f \<noteq> 0")
        case op: True
        show ?thesis
        proof (cases "is_EISDIR (f_open_errno f) fl \<and> directories cfg = RECURSE_DIRECTORIES")
          case rec: True
          show ?thesis
          proof (cases "f_stat_errno f \<noteq> 0")
            case True
            with Some op rec show ?thesis
              by (simp add: grepfile.simps f_def [symmetric] Let_def)
          next
            case False
            from "1.IH"(2) [OF Some f_def op refl refl _ False] rec fin fuel fm
              known_id [of e path]
            have "grepdir n cfg e path (f_stat f) anc
                 (store_stat anc (f_stat f) (s\<lparr>errno := f_open_errno f\<rparr>))
              = grepdir m cfg e path (f_stat f) anc
                 (store_stat anc (f_stat f) (s\<lparr>errno := f_open_errno f\<rparr>))"
              unfolding f_def by blast
            with Some op rec False show ?thesis
              by (simp add: grepfile.simps f_def [symmetric] Let_def)
          qed
        next
          case False
          with Some op show ?thesis
            by (auto simp add: grepfile.simps f_def [symmetric] Let_def)
        qed
      next
        case op: False
        from "1.IH"(3) [OF Some f_def op] fin fuel fm Some f_def
        have "grep n cfg e f fl anc 0 (s\<lparr>filename := path\<rparr>)
              = grep m cfg e f fl anc 0 (s\<lparr>filename := path\<rparr>)"
          by blast
        with Some op show ?thesis
          by (simp add: grepfile.simps f_def [symmetric] Let_def)
      qed
    qed
  qed
next
  case (2 n cfg e f fl anc pos s)
  show ?case
  proof (intro impI allI)
    fix m
    assume fin: "finite (known_ids e)" and fuel: "card (unvisited e anc) < n"
      and ff: "\<forall>path. fl = Some path \<longrightarrow> f = fs e path"
      and fm: "card (unvisited e anc) < m"
    show "grep n cfg e f fl anc pos s = grep m cfg e f fl anc pos s"
    proof (cases "reset cfg e f fl anc pos s")
      case Undefined
      then show ?thesis by (simp add: grep.simps)
    next
      case (Exit k s1)
      then show ?thesis by (simp add: grep.simps)
    next
      case (Return o1 s1)
      show ?thesis
      proof (cases o1)
        case None
        with Return show ?thesis by (simp add: grep.simps)
      next
        case (Some st)
        show ?thesis
        proof (cases "fl \<noteq> None \<and> directories cfg = RECURSE_DIRECTORIES \<and> st_mode st = S_IFDIR")
          case True
          define s2 where "s2 = (if f_close_errno f \<noteq> 0
                       then error (the fl) (f_close_errno f) (s1\<lparr>errno := f_close_errno f\<rparr>)
                       else s1)"
          from Return Some reset_Some have "st = f_stat f" by blast
          with ff True have "file_id st \<in> known_ids e"
            by (auto simp: known_id)
          with "2.IH" [OF Return Some True refl s2_def] fin fuel fm
          have "grepdir n cfg e (the fl) st anc s2 = grepdir m cfg e (the fl) st anc s2"
            by blast
          with Return Some True show ?thesis
            by (auto simp: grep.simps Let_def s2_def)
        next
          case False
          with Return Some show ?thesis
            by (auto simp: grep.simps)
        qed
      qed
    qed
  qed
next
  case (3 cfg e dir st anc s)
  show ?case by simp
next
  case (4 n cfg e dir st anc s)
  show ?case
  proof (intro impI allI)
    fix m
    assume fin: "finite (known_ids e)" and fuel: "card (unvisited e anc) < Suc n"
      and st: "file_id st \<in> known_ids e" and fm: "card (unvisited e anc) < m"
    from fm obtain m' where m: "m = Suc m'" by (cases m) auto
    show "grepdir (Suc n) cfg e dir st anc s = grepdir m cfg e dir st anc s"
    proof (cases "list_ex (\<lambda>a. st_ino a = st_ino st \<and> st_dev a = st_dev st) anc")
      case True
      then show ?thesis by (simp add: grepdir.simps m)
    next
      case loop: False
      show ?thesis
      proof (cases "f_savedir (fs e dir)")
        case None
        with loop show ?thesis
          by (simp add: grepdir.simps Let_def m)
      next
        case (Some names)
        define s1 where "s1 = s\<lparr>out_file := out_file s + of_bool (\<not> no_filenames cfg)\<rparr>"
        from loop have "file_id st \<notin> file_id ` set anc" by (simp add: loop_check)
        from unvisited_less [OF fin st this] fuel fm m
        have "card (unvisited e (st # anc)) < n" "card (unvisited e (st # anc)) < m'"
          by simp_all
        with "4.IH" [OF loop Some s1_def] fin
        have "grepdir_loop n cfg e dir (st # anc) names 1 s1
                = grepdir_loop m' cfg e dir (st # anc) names 1 s1" by blast
        with loop Some show ?thesis
          by (simp add: grepdir.simps Let_def s1_def [symmetric] m)
      qed
    qed
  qed
next
  case (5 n cfg e dir chain status s)
  show ?case by (simp add: grepdir_loop.simps)
next
  case (6 n cfg e dir chain name names status s)
  show ?case
  proof (intro impI allI)
    fix m
    assume fin: "finite (known_ids e)" and fuel: "card (unvisited e chain) < n"
      and fm: "card (unvisited e chain) < m"
    show "grepdir_loop n cfg e dir chain (name # names) status s
            = grepdir_loop m cfg e dir chain (name # names) status s"
    proof (cases "name = []")
      case True
      then show ?thesis by (simp add: grepdir_loop.simps)
    next
      case ne: False
      show ?thesis
      proof (cases "alloc e (of_nat (length dir + 1 + length name + 1)) = 0")
        case True
        with ne show ?thesis by (simp add: grepdir_loop.simps)
      next
        case al: False
        from "6.IH"(1) [OF ne al] fin fuel fm
        have g: "grepfile n cfg e (Some (entry_path dir name)) chain s
                 = grepfile m cfg e (Some (entry_path dir name)) chain s"
          by blast
        show ?thesis
        proof (cases "grepfile n cfg e (Some (entry_path dir name)) chain s")
          case None
          with ne al g show ?thesis by (simp add: grepdir_loop.simps)
        next
          case (Some r1)
          show ?thesis
          proof (cases r1)
            case Undefined
            with ne al Some g show ?thesis by (simp add: grepdir_loop.simps)
          next
            case (Exit k s1)
            with ne al Some g show ?thesis by (simp add: grepdir_loop.simps)
          next
            case (Return r2 s1)
            from "6.IH"(2) [OF ne al Some Return] fin fuel fm
            have "grepdir_loop n cfg e dir chain names (status AND r2) s1
                  = grepdir_loop m cfg e dir chain names (status AND r2) s1" by blast
            with ne al Some g Return show ?thesis by (simp add: grepdir_loop.simps)
          qed
        qed
      qed
    qed
  qed
qed

lemma loop_env_fields:
  "fs loop_env p = loop_dir" "getpagesize loop_env = 4096" "alloc loop_env n = 65536"
  by (simp_all add: loop_env_def sample_env_def)

lemma loop_known_ids:
  "finite (known_ids loop_env)" "card (unvisited loop_env anc) \<le> 1"
proof -
  have k: "known_ids loop_env = {(1, 7)}"
    by (auto simp: known_ids_def loop_env_fields loop_dir_def file_id_def)
  then show "finite (known_ids loop_env)" by simp
  have "unvisited loop_env anc \<subseteq> {(1, 7)}"
    using k by (auto simp: unvisited_def)
  then have "card (unvisited loop_env anc) \<le> card {(1::nat, 7::nat)}"
    by (intro card_mono) simp_all
  then show "card (unvisited loop_env anc) \<le> 1" by simp
qed

lemma recursive_cfg_advances: "matcher_advances recursive_cfg"
  using sample_cfg_advances [of "CHR ''b''"]
  by (simp add: matcher_advances_def recursive_cfg_def)

lemma loop_env_run:
  "grepfile 2 recursive_cfg loop_env (Some ''d'') [] (init_state recursive_cfg)
     = Some (Return 1 ((init_state recursive_cfg)
         \<lparr>filename := ''d/d'', pagesize := 4096, bufsalloc := 8192, bufalloc := 40960,
          buffer := 65536,
          stats_base := \<lparr>st_mode = S_IFDIR, st_ino = 7, st_dev = 1, st_size = 0\<rparr>,
          stderr := [LoopWarning ''d/d'']\<rparr>))"
  apply (subst grepfile.simps)
  apply (simp add: loop_env_fields Let_def loop_dir_def [THEN arg_cong [where f = f_open_errno]])
  apply (subst grep.simps)
  apply (simp add: reset_def reset_alloc_def Let_def page_alloc_def ALIGN_TO_def
      PREFERRED_SAVE_FACTOR_def store_stat_def loop_env_fields loop_dir_def init_state_def
      recursive_cfg_def sample_cfg_def)
  apply (simp add: numeral_2_eq_2 grepdir.simps loop_env_fields loop_dir_def Let_def)
  apply (simp add: grepdir_loop.simps loop_env_fields entry_path_def)
  apply (subst grepfile.simps)
  apply (simp add: loop_env_fields Let_def loop_dir_def)
  apply (subst grep.simps)
  apply (simp add: reset_def reset_alloc_def Let_def page_alloc_def ALIGN_TO_def
      PREFERRED_SAVE_FACTOR_def store_stat_def)
  apply (simp add: grepdir.simps grepdir_loop.simps grepfile_finish_def)
  done

section \<open>The claims\<close>

text \<open>Claim C2, as amended. For every matcher that makes progress (each match lies within
  the region it was given and, unless it starts at the end of the region, ends after the
  scan position), every turn of the loop of \<^verbatim>\<open>grepbuf\<close> that goes round again moves
  the scan position \<open>p\<close> forward by at least one byte and not beyond \<open>lim\<close>, and
  \<^verbatim>\<open>grepbuf\<close> returns on every buffer region.\<close>

theorem grepbuf_terminates:
  assumes "matcher_advances cfg"
  shows "(\<forall>p n s1 p' n' s'.
            lim \<le> length (buf s1) \<longrightarrow> grepbuf_step cfg e lim p n s1 = Next p' n' s'
            \<longrightarrow> p < p' \<and> p' \<le> lim)
         \<and> (\<exists>r. grepbuf cfg e beg lim s = Some r)"
proof
  show "\<forall>p n s1 p' n' s'.
            lim \<le> length (buf s1) \<longrightarrow> grepbuf_step cfg e lim p n s1 = Next p' n' s'
            \<longrightarrow> p < p' \<and> p' \<le> lim"
    using grepbuf_step_advances [OF assms] by blast
  show "\<exists>r. grepbuf cfg e beg lim s = Some r"
    using grepbuf_loop_terminates [OF assms, of lim s e beg 0]
    by (simp add: grepbuf_def)
qed

text \<open>The matcher that selects the lines containing \<^verbatim>\<open>b\<close> makes progress, and
  \<^verbatim>\<open>grepbuf\<close> returns on the three sample lines.\<close>

theorem grepbuf_terminates_witness:
  "\<exists>r. grepbuf (sample_cfg CHR ''b'') (sample_env (\<lambda>p. missing_file) missing_file) 0 9
          (sample_state (sample_cfg CHR ''b'') sample_text) = Some r"
  using grepbuf_terminates [OF sample_cfg_advances] by blast

text \<open>Claim C2 as stated fails: a matcher may report the empty match at offset 0, which
  is within the region. In inverted mode the turn of the loop leaves \<open>p\<close> and the state
  as they were, and \<^verbatim>\<open>grepbuf\<close> never returns.\<close>

theorem grepbuf_empty_match_counterexample:
  "grepbuf_step empty_match_cfg (sample_env (\<lambda>p. missing_file) missing_file) 9 0 0
       (sample_state empty_match_cfg sample_text)
     = Next 0 0 (sample_state empty_match_cfg sample_text)
   \<and> grepbuf empty_match_cfg (sample_env (\<lambda>p. missing_file) missing_file) 0 9
       (sample_state empty_match_cfg sample_text) = None"
proof -
  have st: "grepbuf_step empty_match_cfg (sample_env (\<lambda>p. missing_file) missing_file) 9 0 0
       (sample_state empty_match_cfg sample_text)
     = Next 0 0 (sample_state empty_match_cfg sample_text)"
    by (simp add: grepbuf_step_def empty_match_cfg_def sample_cfg_def sample_state_def
          sample_text_def init_state_def)
  have len: "length (buf (sample_state empty_match_cfg sample_text)) = 9"
    by (simp add: sample_state_def sample_text_def)
  show ?thesis
    using st grepbuf_loop_stuck [OF st] by (simp add: grepbuf_def len)
qed

text \<open>Claim C6, as amended. In a call of \<^verbatim>\<open>prtext\<close> that returns, with output not
  suppressed (\<^verbatim>\<open>out_quiet\<close> is 0): once the pending lines of trailing context are
  printed (state \<open>s1\<close>), what \<^verbatim>\<open>prtext\<close> writes is the separator, exactly when context
  is enabled, \<^verbatim>\<open>prtext\<close> was called before and the group starts elsewhere than the last
  output ended, followed by the bytes of the output group itself. The separator is the
  two bytes \<^verbatim>\<open>--\<close> and a newline, whatever the end-of-line byte is. With output
  suppressed \<^verbatim>\<open>prtext\<close> writes nothing.\<close>

theorem prtext_separator:
  assumes "prtext cfg e beg lim nlinesp s = Return r s'"
  shows "if out_quiet s = 0 then
           (\<exists>u s1 t.
              (if 0 < pending s then prpending cfg e beg s else Return () s) = Return u s1
              \<and> prtext_group cfg e beg lim nlinesp (group_start cfg beg s1) (s1\<lparr>stdout := []\<rparr>)
                  = Return r t
              \<and> stdout s' = stdout s1
                   @ (if separator_due cfg (group_start cfg beg s1) s1
                      then ''--'' @ [CHR 0x0A] else [])
                   @ stdout t)
         else stdout s' = stdout s"
proof -
  from assms have le: "\<not> length (buf s) < beg"
    by (simp add: prtext_def split: if_splits)
  from assms le obtain u s1 p s2 s3 where
    a: "(if out_quiet s = 0 \<and> 0 < pending s then prpending cfg e beg s else Return () s)
          = Return u s1"
    and b: "(if out_quiet s1 = 0 then prtext_leading cfg e beg s1 else Return beg s1)
          = Return p s2"
    and c: "prtext_matched cfg e beg lim nlinesp p s2 = Return r s3"
    and d: "s' = s3\<lparr>pending := (if out_quiet s3 \<noteq> 0 then 0 else out_after cfg),
                      used := True\<rparr>"
    by (auto simp: prtext_def obind_Return)
  from a have fa: "scan_frame s s1"
    by (cases "out_quiet s = 0 \<and> 0 < pending s") (auto dest: prpending_frame)
  show ?thesis
  proof (cases "out_quiet s = 0")
    case False
    with a b fa have "s1 = s" "s2 = s"
      by (simp_all add: scan_frame_def)
    with c False have "stdout s3 = stdout s"
      by (cases nlinesp) (auto simp: prtext_matched_def obind_Return dest: prlines_quiet)
    with d False show ?thesis by simp
  next
    case True
    define p0 where "p0 = group_start cfg beg s1"
    define sep where "sep = (if separator_due cfg p0 s1 then ''--'' @ [CHR 0x0A] else [])"
    from True fa have q1: "out_quiet s1 = 0"
      by (simp add: scan_frame_def)
    have "(if separator_due cfg p0 s1 then puts ''--'' s1 else s1) = s1\<lparr>stdout := stdout s1 @ sep\<rparr>"
      by (simp add: sep_def puts_def fwrite_def)
    with b q1 have "prcontext cfg e p0 beg (s1\<lparr>stdout := stdout s1 @ sep\<rparr>) = Return p s2"
      by (simp add: prtext_leading_def Let_def p0_def group_start_def separator_due_def)
    with c have "prtext_group cfg e beg lim nlinesp p0 (s1\<lparr>stdout := stdout s1 @ sep\<rparr>)
        = Return r s3"
      by (simp add: prtext_group_def)
    then have g: "omap (prepend_out (stdout s1 @ sep))
           (prtext_group cfg e beg lim nlinesp p0 (s1\<lparr>stdout := []\<rparr>)) = Return r s3"
      by (simp add: prepend_out_stdout [of s1 sep] prtext_group_prepend)
    then obtain t where t: "prtext_group cfg e beg lim nlinesp p0 (s1\<lparr>stdout := []\<rparr>) = Return r t"
      and s3: "s3 = prepend_out (stdout s1 @ sep) t"
      by (cases "prtext_group cfg e beg lim nlinesp p0 (s1\<lparr>stdout := []\<rparr>)") auto
    from d s3 have "stdout s' = stdout s1 @ sep @ stdout t"
      by simp
    with a t True show ?thesis
      by (auto simp: p0_def sep_def)
  qed
qed


text \<open>With \<^verbatim>\<open>-z -A 1\<close>, a call of \<^verbatim>\<open>prtext\<close> for the line \<^verbatim>\<open>bb\<close> made after an earlier
  call: the separator is due, and the output is the separator, newline and all, and
  the line with its NUL byte.\<close>

theorem prtext_separator_witness:
  "\<exists>u s1 t.
     (if 0 < pending null_data_state
      then prpending null_data_cfg (sample_env (\<lambda>p. missing_file) missing_file) 2 null_data_state
      else Return () null_data_state) = Return u s1
     \<and> prtext_group null_data_cfg (sample_env (\<lambda>p. missing_file) missing_file) 2 5 False
          (group_start null_data_cfg 2 s1) (s1\<lparr>stdout := []\<rparr>) = Return None t
     \<and> ''--'' @ [CHR 0x0A] @ ''bb'' @ [CHR 0x00]
         = stdout s1
           @ (if separator_due null_data_cfg (group_start null_data_cfg 2 s1) s1
              then ''--'' @ [CHR 0x0A] else [])
           @ stdout t"
proof -
  have q: "out_quiet null_data_state = 0"
    by (simp add: null_data_state_def sample_state_def init_state_def null_data_cfg_def
          sample_cfg_def)
  from prtext_separator [OF prtext_null_data_run] q show ?thesis
    by simp
qed

text \<open>Claim C6 as stated fails in its last part: with \<^verbatim>\<open>-z\<close> in effect the separator is
  still followed by a newline, not by a NUL byte.\<close>

theorem prtext_separator_newline_counterexample:
  "eolbyte null_data_cfg = CHR 0x00
   \<and> prtext null_data_cfg (sample_env (\<lambda>p. missing_file) missing_file) 2 5 False null_data_state
     = Return None
         (null_data_state\<lparr>stdout := ''--'' @ [CHR 0x0A] @ ''bb'' @ [CHR 0x00],
            lastout := Some 5, pending := 1\<rparr>)"
  using prtext_null_data_run by (simp add: null_data_cfg_def)









text \<open>Claim C8. When the matcher reports a match that starts at \<open>lim\<close> (in particular
  the empty match at the end of the buffer), the turn of the loop of \<^verbatim>\<open>grepbuf\<close> leaves
  the loop with the count and the state, so the output, as they were: the match itself
  prints no line, in either mode. What \<^verbatim>\<open>grepbuf\<close> then returns is fixed in both modes.
  In non-inverted mode, and in inverted mode when nothing is left before \<open>lim\<close>
  (\<open>p = lim\<close>), it is the count and the state unchanged: nothing at all is printed. In
  inverted mode with \<open>p < lim\<close> it is the result of the one call
  \<^verbatim>\<open>prtext (p, lim, &n)\<close> on the unmatched lines before \<open>lim\<close>, and the count grows by
  no more than the number of end-of-line bytes between \<open>p\<close> and \<open>lim\<close>: no line is
  counted for the empty line at \<open>lim\<close>.\<close>

theorem grepbuf_match_at_lim:
  assumes "p \<le> lim"
    and "execute cfg (take (lim - p) (drop p (buf s))) = Some (match_offset, match_size)"
    and "p + match_offset = lim"
  shows "grepbuf_step cfg e lim p nlines s = Leave nlines s
         \<and> grepbuf_loop cfg e lim p nlines s = Some (grepbuf_tail cfg e lim p nlines s)
         \<and> (\<not> out_invert cfg \<or> p = lim
              \<longrightarrow> grepbuf_loop cfg e lim p nlines s = Some (Return nlines s))
         \<and> (out_invert cfg \<and> p < lim
              \<longrightarrow> grepbuf_loop cfg e lim p nlines s
                    = Some (obind (prtext cfg e p lim True s) (\<lambda>r s1.
                        Return (nlines + (case r of Some n \<Rightarrow> n | None \<Rightarrow> 0))
                          (s1\<lparr>outleft := outleft s1
                                  - (case r of Some n \<Rightarrow> n | None \<Rightarrow> 0)\<rparr>))))
         \<and> (\<forall>n' s'. grepbuf_loop cfg e lim p nlines s = Some (Return n' s')
              \<longrightarrow> nlines \<le> n' \<and> n' - nlines \<le> int (region_lines cfg p lim s))
         \<and> (\<forall>k s'. grepbuf_loop cfg e lim p nlines s \<noteq> Some (Exit k s'))"
proof -
  from assms have st: "grepbuf_step cfg e lim p nlines s = Leave nlines s"
    by (simp add: grepbuf_step_def)
  then have lp: "grepbuf_loop cfg e lim p nlines s = Some (grepbuf_tail cfg e lim p nlines s)"
    by (subst grepbuf_loop.simps) simp
  have plain: "\<not> out_invert cfg \<or> p = lim
      \<Longrightarrow> grepbuf_tail cfg e lim p nlines s = Return nlines s"
    by (auto simp: grepbuf_tail_def)
  have inv: "out_invert cfg \<and> p < lim
      \<Longrightarrow> grepbuf_tail cfg e lim p nlines s
            = obind (prtext cfg e p lim True s) (\<lambda>r s1.
                        Return (nlines + (case r of Some n \<Rightarrow> n | None \<Rightarrow> 0))
                          (s1\<lparr>outleft := outleft s1
                                  - (case r of Some n \<Rightarrow> n | None \<Rightarrow> 0)\<rparr>))"
    by (simp add: grepbuf_tail_def Let_def)
  have cnt: "nlines \<le> n' \<and> n' - nlines \<le> int (region_lines cfg p lim s)"
    if "grepbuf_tail cfg e lim p nlines s = Return n' s'" for n' s'
  proof (cases "out_invert cfg \<and> p < lim")
    case False
    with that show ?thesis by (simp add: grepbuf_tail_def)
  next
    case True
    with that obtain r s1 where pt: "prtext cfg e p lim True s = Return r s1"
      and n': "n' = nlines + (case r of Some n \<Rightarrow> n | None \<Rightarrow> 0)"
      by (auto simp: grepbuf_tail_def obind_Return Let_def)
    from prtext_count [OF pt] n' show ?thesis by auto
  qed
  have nex: "grepbuf_tail cfg e lim p nlines s \<noteq> Exit k s'" for k s'
    by (simp add: grepbuf_tail_def obind_Exit prtext_no_exit Let_def)
  show ?thesis
    using st lp plain inv cnt nex by simp
qed

text \<open>On the three sample lines, with a matcher that reports the empty match at the end
  of the region. In non-inverted mode the loop is left at once and nothing is printed.
  In inverted mode at the end of the buffer nothing is printed either; from the start
  of the buffer the three lines are printed and counted, and nothing more.\<close>

theorem grepbuf_match_at_lim_witness:
  "grepbuf_step end_match_cfg (sample_env (\<lambda>p. missing_file) missing_file) 9 0 0
       (sample_state end_match_cfg sample_text)
     = Leave 0 (sample_state end_match_cfg sample_text)
   \<and> grepbuf_loop end_match_cfg (sample_env (\<lambda>p. missing_file) missing_file) 9 0 0
       (sample_state end_match_cfg sample_text)
     = Some (Return 0 (sample_state end_match_cfg sample_text))
   \<and> grepbuf_loop inverted_end_match_cfg (sample_env (\<lambda>p. missing_file) missing_file) 9 9 0
       (sample_state inverted_end_match_cfg sample_text)
     = Some (Return 0 (sample_state inverted_end_match_cfg sample_text))
   \<and> (\<exists>s'. grepbuf_loop inverted_end_match_cfg (sample_env (\<lambda>p. missing_file) missing_file)
              9 0 0 (sample_state inverted_end_match_cfg sample_text)
            = Some (Return 3 s')
          \<and> stdout s' = sample_text)"
proof -
  let ?e = "sample_env (\<lambda>p. missing_file) missing_file"
  have a: "(0::nat) \<le> 9" by simp
  have b: "execute end_match_cfg (take (9 - 0) (drop 0 (buf (sample_state end_match_cfg sample_text))))
        = Some (9, 0)"
    by (simp add: end_match_cfg_def sample_state_def sample_text_def)
  have c: "0 + 9 = (9::nat)" by simp
  have d: "\<not> out_invert end_match_cfg"
    by (simp add: end_match_cfg_def sample_cfg_def)
  have a': "(9::nat) \<le> 9" by simp
  have b': "execute inverted_end_match_cfg
              (take (9 - 9) (drop 9 (buf (sample_state inverted_end_match_cfg sample_text))))
        = Some (0, 0)"
    by (simp add: inverted_end_match_cfg_def end_match_cfg_def sample_state_def sample_text_def)
  have c': "9 + 0 = (9::nat)" by simp
  have b'': "execute inverted_end_match_cfg
              (take (9 - 0) (drop 0 (buf (sample_state inverted_end_match_cfg sample_text))))
        = Some (9, 0)"
    by (simp add: inverted_end_match_cfg_def end_match_cfg_def sample_state_def sample_text_def)
  have d'': "out_invert inverted_end_match_cfg \<and> (0::nat) < 9"
    by (simp add: inverted_end_match_cfg_def)
  have "(case prtext inverted_end_match_cfg ?e 0 9 True
                 (sample_state inverted_end_match_cfg sample_text) of
           Return r s1 \<Rightarrow> r = Some 3 \<and> stdout s1 = sample_text
         | Exit k s1 \<Rightarrow> False | Undefined \<Rightarrow> False)"
    by code_simp
  then have pt: "\<exists>s1. prtext inverted_end_match_cfg ?e 0 9 True
                   (sample_state inverted_end_match_cfg sample_text) = Return (Some 3) s1
              \<and> stdout s1 = sample_text"
    by (auto split: outcome.splits)
  from grepbuf_match_at_lim [OF a b c, where e = ?e and nlines = 0] d
  have 1: "grepbuf_step end_match_cfg ?e 9 0 0 (sample_state end_match_cfg sample_text)
             = Leave 0 (sample_state end_match_cfg sample_text)
           \<and> grepbuf_loop end_match_cfg ?e 9 0 0 (sample_state end_match_cfg sample_text)
             = Some (Return 0 (sample_state end_match_cfg sample_text))"
    by blast
  from grepbuf_match_at_lim [OF a' b' c', where e = ?e and nlines = 0]
  have 2: "grepbuf_loop inverted_end_match_cfg ?e 9 9 0
             (sample_state inverted_end_match_cfg sample_text)
           = Some (Return 0 (sample_state inverted_end_match_cfg sample_text))"
    by blast
  from grepbuf_match_at_lim [OF a b'' c, where e = ?e and nlines = 0] d''
  have "grepbuf_loop inverted_end_match_cfg ?e 9 0 0
             (sample_state inverted_end_match_cfg sample_text)
          = Some (obind (prtext inverted_end_match_cfg ?e 0 9 True
                           (sample_state inverted_end_match_cfg sample_text)) (\<lambda>r s1.
                        Return (0 + (case r of Some n \<Rightarrow> n | None \<Rightarrow> 0))
                          (s1\<lparr>outleft := outleft s1
                                  - (case r of Some n \<Rightarrow> n | None \<Rightarrow> 0)\<rparr>)))"
    by blast
  with pt have 3: "\<exists>s'. grepbuf_loop inverted_end_match_cfg ?e 9 0 0
             (sample_state inverted_end_match_cfg sample_text) = Some (Return 3 s')
          \<and> stdout s' = sample_text"
    by auto
  from 1 2 3 show ?thesis by blast
qed
















text \<open>Claim C3 fails on the code. When closing the output stream fails after a search
  that returned with \<^verbatim>\<open>errseen\<close> unset, \<^verbatim>\<open>main\<close> reports the failure, but the exit
  status is the \<open>status\<close> of the search, 0 or 1, and not 2: \<^verbatim>\<open>error\<close> prints the
  diagnostic and leaves \<^verbatim>\<open>errseen\<close> as it is, although its comment says that it
  remembers that something awful happened.\<close>

theorem main_write_failure:
  assumes "max_count cfg \<noteq> 0" and "stdout_fclose_eof e"
    and "main_search n cfg e files (main_start cfg files) = Some (Return status s)"
    and "\<not> errseen s"
  shows "main n cfg e files
           = Some (Exit status
               (s\<lparr>stderr := stderr s @ [Diag ''writing output'' (stdout_errno e)]\<rparr>))
         \<and> (status = 0 \<or> status = 1)"
proof -
  from main_search_status [OF assms(3)] have "status = 0 \<or> status = 1"
    by (auto split: if_splits)
  with assms show ?thesis
    by (simp add: main_def Let_def main_exit_def error_def)
qed

text \<open>The sample search with an output stream that fails to close: the line is found,
  the failure is reported, and the exit status is 0.\<close>

theorem main_write_failure_witness:
  "main 3 (sample_cfg CHR ''b'') close_failing_env [''x'']
     = Some (Exit 0
     \<lparr>errseen = False, errno = 0, stdout = ''bb'' @ [CHR 0x0A],
       stderr = [Diag ''writing output'' 28],
       filename = ''x'', pagesize = 4096, bufsalloc = 8192, bufalloc = 40960,
       buffer = 65536, buf = [], bufoffset = 9, stdin_pos = 0,
       stats_base = \<lparr>st_mode = S_IFREG, st_ino = 1, st_dev = 1, st_size = 9\<rparr>,
       after_last_match = 0, out_quiet = 0, out_file = 0, done_on_match = 0,
       totalcc = 9, lastnl = 0, lastout = None, totalnl = 0,
       outleft = 9223372036854775806, pending = 0, used = True\<rparr>)"
proof -
  have a: "max_count (sample_cfg CHR ''b'') \<noteq> 0" by (simp add: sample_cfg_fields)
  have b: "stdout_fclose_eof close_failing_env" by (simp add: close_failing_env_fields)
  from main_write_failure [OF a b close_failing_main_search [of 3]]
  show ?thesis
    by (simp add: close_failing_env_fields del: One_nat_def)
qed

text \<open>Claim C9. When the chain of ancestors holds an entry with the device and inode of
  \<open>dir\<close>, \<^verbatim>\<open>grepdir\<close> returns 1 with the state as it was, but for the warning of a
  recursive directory loop when errors are not suppressed: the directory is neither
  read nor entered, whatever the file system holds. The depth of the recursion is
  bounded by the number of identities the file system knows that are not in the chain:
  a bound \<open>n\<close> beyond that number is never used up, so every larger bound gives the same
  result. And the recursion ends: with such a bound \<^verbatim>\<open>grepfile\<close> and \<^verbatim>\<open>grepdir\<close> return,
  for every matcher that makes progress (so that the search of each file ends).\<close>

theorem grepdir_loop_terminates:
  "(list_ex (\<lambda>a. st_ino a = st_ino st \<and> st_dev a = st_dev st) anc
      \<longrightarrow> grepdir (Suc n) cfg e dir st anc s
            = Some (Return 1 (if suppress_errors cfg then s
                              else s\<lparr>stderr := stderr s @ [LoopWarning dir]\<rparr>)))
   \<and> (finite (known_ids e) \<and> card (unvisited e anc) < n \<and> card (unvisited e anc) < m
      \<longrightarrow> grepfile n cfg e fl anc s = grepfile m cfg e fl anc s
          \<and> (file_id st \<in> known_ids e
               \<longrightarrow> grepdir n cfg e dir st anc s = grepdir m cfg e dir st anc s))
   \<and> (matcher_advances cfg \<and> finite (known_ids e) \<and> card (unvisited e anc) < n
      \<longrightarrow> (\<exists>r. grepfile n cfg e fl anc s = Some r)
          \<and> (file_id st \<in> known_ids e \<longrightarrow> (\<exists>r. grepdir n cfg e dir st anc s = Some r)))"
proof (intro conjI impI)
  assume "list_ex (\<lambda>a. st_ino a = st_ino st \<and> st_dev a = st_dev st) anc"
  then show "grepdir (Suc n) cfg e dir st anc s
            = Some (Return 1 (if suppress_errors cfg then s
                              else s\<lparr>stderr := stderr s @ [LoopWarning dir]\<rparr>))"
    by (simp add: grepdir.simps)
next
  assume "finite (known_ids e) \<and> card (unvisited e anc) < n \<and> card (unvisited e anc) < m"
  then show "grepfile n cfg e fl anc s = grepfile m cfg e fl anc s"
    using grepfile_fuel_aux(1) by blast
next
  assume "finite (known_ids e) \<and> card (unvisited e anc) < n \<and> card (unvisited e anc) < m"
    and "file_id st \<in> known_ids e"
  then show "grepdir n cfg e dir st anc s = grepdir m cfg e dir st anc s"
    using grepfile_fuel_aux(3) by blast
next
  assume "matcher_advances cfg \<and> finite (known_ids e) \<and> card (unvisited e anc) < n"
  then show "\<exists>r. grepfile n cfg e fl anc s = Some r"
    using grepfile_total_aux(1) by blast
next
  assume "matcher_advances cfg \<and> finite (known_ids e) \<and> card (unvisited e anc) < n"
    and "file_id st \<in> known_ids e"
  then show "\<exists>r. grepdir n cfg e dir st anc s = Some r"
    using grepfile_total_aux(3) by blast
qed

text \<open>In the directory that holds itself, the search of \<^verbatim>\<open>d\<close> enters \<^verbatim>\<open>d\<close>, finds the
  loop at \<^verbatim>\<open>d/d\<close>, warns and returns 1; the bound 2 is enough and any larger bound
  gives the same.\<close>

theorem grepdir_loop_terminates_witness:
  "grepdir (Suc 0) recursive_cfg loop_env ''d/d'' (f_stat loop_dir) [f_stat loop_dir]
       (init_state recursive_cfg)
     = Some (Return 1 ((init_state recursive_cfg)\<lparr>stderr := [LoopWarning ''d/d'']\<rparr>))
   \<and> grepfile 5 recursive_cfg loop_env (Some ''d'') [] (init_state recursive_cfg)
     = Some (Return 1 ((init_state recursive_cfg)
         \<lparr>filename := ''d/d'', pagesize := 4096, bufsalloc := 8192, bufalloc := 40960,
          buffer := 65536,
          stats_base := \<lparr>st_mode = S_IFDIR, st_ino = 7, st_dev = 1, st_size = 0\<rparr>,
          stderr := [LoopWarning ''d/d'']\<rparr>))
   \<and> (\<exists>r. grepdir 2 recursive_cfg loop_env ''d'' (f_stat loop_dir) []
             (init_state recursive_cfg) = Some r)"
proof -
  have a: "list_ex (\<lambda>a. st_ino a = st_ino (f_stat loop_dir) \<and> st_dev a = st_dev (f_stat loop_dir))
             [f_stat loop_dir]"
    by simp
  have b: "\<not> suppress_errors recursive_cfg"
    by (simp add: recursive_cfg_def sample_cfg_def)
  have c: "card (unvisited loop_env []) < 2" "card (unvisited loop_env []) < 5"
    using loop_known_ids(2) [of "[]"] by simp_all
  have d: "file_id (f_stat loop_dir) \<in> known_ids loop_env"
    using known_id [of loop_env "''d''"] by (simp add: loop_env_fields)
  note t = grepdir_loop_terminates [of "f_stat loop_dir" _ _ recursive_cfg loop_env]
  from t [of "[f_stat loop_dir]" 0 "''d/d''" "init_state recursive_cfg"] a b
  have 1: "grepdir (Suc 0) recursive_cfg loop_env ''d/d'' (f_stat loop_dir) [f_stat loop_dir]
       (init_state recursive_cfg)
     = Some (Return 1 ((init_state recursive_cfg)\<lparr>stderr := [LoopWarning ''d/d'']\<rparr>))"
    by (simp add: init_state_def)
  from t [of "[]" 2 "''d''" "init_state recursive_cfg" 5 "Some ''d''"]
    loop_known_ids(1) c d recursive_cfg_advances
  have 2: "grepfile 2 recursive_cfg loop_env (Some ''d'') [] (init_state recursive_cfg)
            = grepfile 5 recursive_cfg loop_env (Some ''d'') [] (init_state recursive_cfg)"
    and 3: "\<exists>r. grepdir 2 recursive_cfg loop_env ''d'' (f_stat loop_dir) []
             (init_state recursive_cfg) = Some r"
    by blast+
  from 1 2 3 loop_env_run show ?thesis by simp
qed

end
